theory Spec2Isabelle
  imports Main
begin

section \<open>tsh: a tiny shell with job control\<close>

text \<open>
  A shallow embedding of \<^verbatim>\<open>tsh_tested.c\<close>. The global variables of the program are
  the fields of one record that every function takes and returns; what the program prints
  and the signals it sends are appended to a log; the values that the operating system
  hands back (the result of \<^verbatim>\<open>fork\<close>, of \<^verbatim>\<open>kill\<close>, of each \<^verbatim>\<open>waitpid\<close>, and the moments at
  which signals arrive) are arguments of the functions that make the call.

  \<^verbatim>\<open>pid_t\<close> and \<^verbatim>\<open>int\<close> are modelled by \<^typ>\<open>int\<close>: apart from its loop counters, which
  stay below \<^verbatim>\<open>MAXJOBS + 1\<close>, the only arithmetic of the program on such values is the
  negation of a process id, which cannot overflow. The one value that the program reads
  from its user, the result of \<^verbatim>\<open>atoi\<close>, is reduced to the range of a 32-bit \<^verbatim>\<open>int\<close> where it
  is computed.
\<close>

subsection \<open>Constants and data\<close>

definition MAXJOBS :: nat where
  "MAXJOBS = 16"

definition UNDEF :: int where
  "UNDEF = 0"

definition FG :: int where
  "FG = 1"

definition BG :: int where
  "BG = 2"

definition ST :: int where
  "ST = 3"

text \<open>
  The numbers of the signals come from \<^verbatim>\<open>signal.h\<close> (the values of Linux on x86 are
  used); no result below depends on the numbers chosen. \<^verbatim>\<open>ECHILD\<close> is written as the
  literal 10 by the program itself.
\<close>

definition SIGINT :: int where
  "SIGINT = 2"

definition SIGQUIT :: int where
  "SIGQUIT = 3"

definition SIGCONT :: int where
  "SIGCONT = 18"

definition SIGTSTP :: int where
  "SIGTSTP = 20"

record job_t =
  pid :: int
  jid :: int
  state :: int
  cmdline :: string

text \<open>
  An argument of a \<^verbatim>\<open>printf\<close> call, and the observable actions of the shell: a call of
  \<^verbatim>\<open>printf\<close> or of \<^verbatim>\<open>fprintf(stderr, ...)\<close> is logged with its format string as the
  source has it and the list of its arguments, \<^verbatim>\<open>kill(pid, sig)\<close> with both arguments,
  and the \<^verbatim>\<open>waitpid(pid, NULL, WNOHANG)\<close> of \<^verbatim>\<open>waitfg\<close> with its pid.
\<close>

datatype arg = I int | S string

datatype event =
    Printf string "arg list"
  | Eprintf string "arg list"
  | Perror string
  | Kill int int
  | Waitpid_nohang int

text \<open>
  The ways in which a function of the shell does not return to its caller: a null pointer
  is dereferenced, an array is indexed outside its bounds, \<^verbatim>\<open>exit\<close> is called, the process
  image is replaced by \<^verbatim>\<open>execvp\<close>, or \<^verbatim>\<open>sigsuspend\<close> sleeps and no signal ever arrives.
\<close>

datatype stop = Segfault | OutOfBounds | Exit int | Exec "string list" | Suspended

record shell =
  jobs :: "job_t list"
  verbose :: int
  ready :: int
  child_finished :: int
  sigchld_blocked :: bool
  out :: "event list"

definition emit :: "event \<Rightarrow> shell \<Rightarrow> shell" where
  "emit e s = s\<lparr>out := out s @ [e]\<rparr>"

subsection \<open>Helper routines that manipulate the job list\<close>

text \<open>
  The array \<^verbatim>\<open>jobs[MAXJOBS]\<close> is a list of \<^term>\<open>MAXJOBS\<close> entries; a loop
  \<^verbatim>\<open>for (i = 0; i < MAXJOBS; i++)\<close> over it is a recursion over the list, and a pointer
  \<^verbatim>\<open>&jobs[i]\<close> is the index \<open>i\<close>.
\<close>

definition clearjob :: "job_t \<Rightarrow> job_t" where
  "clearjob job = job\<lparr>pid := 0, jid := 0, state := UNDEF, cmdline := []\<rparr>"

definition initjobs :: "job_t list \<Rightarrow> job_t list" where
  "initjobs js = map clearjob js"

text \<open>
  \<^verbatim>\<open>freejid\<close>: the first loop marks \<^verbatim>\<open>taken[jobs[i].jid]\<close> in an array of
  \<^verbatim>\<open>MAXJOBS + 1\<close> flags for every entry whose jid is not 0; an index outside the array is
  undefined behaviour in C and \<open>None\<close> here. The second loop returns the first index from
  1 to \<^verbatim>\<open>MAXJOBS\<close> that is not marked, and 0 when all are.
\<close>

fun mark_taken :: "job_t list \<Rightarrow> bool list \<Rightarrow> bool list option" where
  "mark_taken [] taken = Some taken"
| "mark_taken (j # js) taken =
     (if jid j \<noteq> 0 then
        (if 0 \<le> jid j \<and> nat (jid j) < length taken
         then mark_taken js (taken[nat (jid j) := True])
         else None)
      else mark_taken js taken)"

definition freejid :: "job_t list \<Rightarrow> int option" where
  "freejid js =
     (case mark_taken js (replicate (MAXJOBS + 1) False) of
        None \<Rightarrow> None
      | Some taken \<Rightarrow>
          (case find (\<lambda>i. \<not> taken ! i) [1 ..< MAXJOBS + 1] of
             None \<Rightarrow> Some 0
           | Some i \<Rightarrow> Some (int i)))"

text \<open>
  The loop of \<^verbatim>\<open>addjob\<close>: the first entry whose pid is 0 receives the four fields; \<open>None\<close>
  when the loop ends without finding one. The command line comes from a buffer of
  \<^verbatim>\<open>MAXLINE\<close> characters, so \<^verbatim>\<open>strcpy\<close> stays inside \<^verbatim>\<open>cmdline\<close>.
\<close>

fun addjob_loop :: "job_t list \<Rightarrow> int \<Rightarrow> int \<Rightarrow> int \<Rightarrow> string \<Rightarrow> job_t list option" where
  "addjob_loop [] p st free cl = None"
| "addjob_loop (j # js) p st free cl =
     (if pid j = 0
      then Some (j\<lparr>pid := p, state := st, jid := free, cmdline := cl\<rparr> # js)
      else map_option ((#) j) (addjob_loop js p st free cl))"

definition addjob :: "shell \<Rightarrow> int \<Rightarrow> int \<Rightarrow> string \<Rightarrow> stop \<times> shell + int \<times> shell" where
  "addjob s p st cl =
     (if p < 1 then Inr (0, s)
      else case freejid (jobs s) of
        None \<Rightarrow> Inl (OutOfBounds, s)
      | Some free \<Rightarrow>
          if free = 0
          then Inr (0, emit (Printf ''Tried to create too many jobs\<newline>'' []) s)
          else (case addjob_loop (jobs s) p st free cl of
                  None \<Rightarrow> Inr (0, s)
                | Some js \<Rightarrow>
                    Inr (1, (if verbose s \<noteq> 0
                             then emit (Printf ''Added job [%d] %d %s\<newline>'' [I free, I p, S cl])
                             else id) (s\<lparr>jobs := js\<rparr>))))"

fun deletejob_loop :: "job_t list \<Rightarrow> int \<Rightarrow> job_t list option" where
  "deletejob_loop [] p = None"
| "deletejob_loop (j # js) p =
     (if pid j = p then Some (clearjob j # js)
      else map_option ((#) j) (deletejob_loop js p))"

definition deletejob :: "job_t list \<Rightarrow> int \<Rightarrow> int \<times> job_t list" where
  "deletejob js p =
     (if p < 1 then (0, js)
      else case deletejob_loop js p of
        None \<Rightarrow> (0, js)
      | Some js' \<Rightarrow> (1, js'))"

fun fgpid :: "job_t list \<Rightarrow> int" where
  "fgpid [] = 0"
| "fgpid (j # js) = (if state j = FG then pid j else fgpid js)"

text \<open>The index of the first entry that satisfies a test, counted from \<open>i\<close>.\<close>

fun find_from :: "nat \<Rightarrow> (job_t \<Rightarrow> bool) \<Rightarrow> job_t list \<Rightarrow> nat option" where
  "find_from i P [] = None"
| "find_from i P (j # js) = (if P j then Some i else find_from (Suc i) P js)"

definition getjobpid :: "job_t list \<Rightarrow> int \<Rightarrow> nat option" where
  "getjobpid js p = (if p < 1 then None else find_from 0 (\<lambda>j. pid j = p) js)"

definition getjobjid :: "job_t list \<Rightarrow> int \<Rightarrow> nat option" where
  "getjobjid js n = (if n < 1 then None else find_from 0 (\<lambda>j. jid j = n) js)"

fun pid2jid_loop :: "job_t list \<Rightarrow> int \<Rightarrow> int" where
  "pid2jid_loop [] p = 0"
| "pid2jid_loop (j # js) p = (if pid j = p then jid j else pid2jid_loop js p)"

definition pid2jid :: "job_t list \<Rightarrow> int \<Rightarrow> int" where
  "pid2jid js p = (if p < 1 then 0 else pid2jid_loop js p)"

fun listjobs_loop :: "nat \<Rightarrow> job_t list \<Rightarrow> event list" where
  "listjobs_loop i [] = []"
| "listjobs_loop i (j # js) =
     (if pid j \<noteq> 0 then
        [Printf ''[%d] (%d) '' [I (jid j), I (pid j)],
         (if state j = BG then Printf ''Running '' []
          else if state j = FG then Printf ''Foreground '' []
          else if state j = ST then Printf ''Stopped '' []
          else Printf ''listjobs: Internal error: job[%d].state=%d '' [I (int i), I (state j)]),
         Printf ''%s'' [S (cmdline j)]]
      else []) @ listjobs_loop (Suc i) js"

definition listjobs :: "shell \<Rightarrow> shell" where
  "listjobs s = s\<lparr>out := out s @ listjobs_loop 0 (jobs s)\<rparr>"

subsection \<open>What the operating system reports\<close>

text \<open>
  The status that \<^verbatim>\<open>waitpid\<close> stores: the handler tests \<^verbatim>\<open>WIFSTOPPED\<close> first, then
  \<^verbatim>\<open>WIFSIGNALED\<close>, and treats every other status as a normal exit. The argument is what
  \<^verbatim>\<open>WSTOPSIG\<close>, \<^verbatim>\<open>WTERMSIG\<close> and \<^verbatim>\<open>WEXITSTATUS\<close> read.
\<close>

datatype wstatus = Exited int | Signaled int | Stopped int

text \<open>
  One invocation of the handler calls \<^verbatim>\<open>waitpid(-1, &status, WNOHANG | WUNTRACED)\<close> until
  the result is not positive. What these calls return is a list of pairs of a positive
  result (the pid of a child whose status changed) and its status, followed by the result
  that is not positive: 0 (children exist and none has changed) or -1 with an \<^verbatim>\<open>errno\<close>.
\<close>

datatype wfin = No_change | Failed int

text \<open>
  A signal that the shell catches, with what the handler will be told by the system calls
  it makes: the results of \<^verbatim>\<open>waitpid\<close> for \<^verbatim>\<open>SIGCHLD\<close>, the result of \<^verbatim>\<open>kill\<close> and \<^verbatim>\<open>errno\<close>
  for \<^verbatim>\<open>SIGINT\<close> and \<^verbatim>\<open>SIGTSTP\<close>.
\<close>

datatype sigev =
    Sigchld "(int \<times> wstatus) list" wfin
  | Sigint "int \<times> int"
  | Sigtstp "int \<times> int"
  | Sigusr1
  | Sigquit

text \<open>
  A signal that arrives while \<^verbatim>\<open>waitfg\<close> runs arrives either between the test of
  \<^verbatim>\<open>child_finished\<close> and the call of \<^verbatim>\<open>sigsuspend\<close>, or while \<^verbatim>\<open>sigsuspend\<close> sleeps.
\<close>

datatype arrival = Before_suspend sigev | During_suspend sigev

text \<open>The results of the system calls that one command makes.\<close>

record os =
  block_ret :: int
  fork_ret :: int
  setpgid_ret :: int
  child_unblock_ret :: int
  execvp_ret :: int
  unblock_ret :: int
  kill_ret :: "int \<times> int"

subsection \<open>Signal handlers\<close>

fun sigchld_handler ::
  "shell \<Rightarrow> (int \<times> wstatus) list \<Rightarrow> wfin \<Rightarrow> stop \<times> shell + shell \<times> (int \<times> wstatus) list" where
  "sigchld_handler s [] No_change = Inr (s, [])"
| "sigchld_handler s [] (Failed errno) =
     Inr (if errno \<noteq> 10
          then emit (Eprintf ''The exorcism failed. Value of errno: %d\<newline>'' [I errno]) s
          else s, [])"
| "sigchld_handler s ((result, Stopped sig) # rest) fin =
     (case getjobpid (jobs s) result of
        None \<Rightarrow> Inl (Segfault, s)
      | Some i \<Rightarrow>
          (let s1 = s\<lparr>jobs := (jobs s)[i := (jobs s ! i)\<lparr>state := ST\<rparr>]\<rparr>;
               s2 = emit (Printf ''Job [%d] (%d) stopped by signal %d\<newline>''
                            [I (pid2jid (jobs s1) result), I result, I sig]) s1
           in Inr (s2\<lparr>child_finished := 1\<rparr>, rest)))"
| "sigchld_handler s ((result, Signaled sig) # rest) fin =
     (let s1 = emit (Printf ''Job [%d] (%d) terminated by signal %d\<newline>''
                       [I (pid2jid (jobs s) result), I result, I sig]) s
      in sigchld_handler
           (s1\<lparr>child_finished := 1, jobs := snd (deletejob (jobs s1) result)\<rparr>) rest fin)"
| "sigchld_handler s ((result, Exited c) # rest) fin =
     sigchld_handler
       (s\<lparr>child_finished := 1, jobs := snd (deletejob (jobs s) result)\<rparr>) rest fin"

definition sigint_handler :: "shell \<Rightarrow> int \<Rightarrow> int \<times> int \<Rightarrow> shell" where
  "sigint_handler s sig k =
     (let foregroundPID = fgpid (jobs s) in
      if foregroundPID = 0 then s
      else let s1 = emit (Kill foregroundPID sig) s in
        if fst k = - 1
        then emit (Eprintf ''Error killing process with SIGINT: %d\<newline>'' [I (snd k)]) s1
        else s1)"

definition sigtstp_handler :: "shell \<Rightarrow> int \<Rightarrow> int \<times> int \<Rightarrow> shell" where
  "sigtstp_handler s sig k =
     (let foregroundPID = fgpid (jobs s) in
      if foregroundPID = 0 then s
      else let s1 = emit (Kill foregroundPID sig) s in
        if fst k = - 1
        then emit (Eprintf ''Error suspending process with SIGSTP: %d\<newline>'' [I (snd k)]) s1
        else s1)"

definition sigusr1_handler :: "shell \<Rightarrow> shell" where
  "sigusr1_handler s = (emit (Printf ''In signal handler: sigusr1\<newline>'' []) s)\<lparr>ready := 1\<rparr>"

definition sigquit_handler :: "shell \<Rightarrow> stop \<times> shell" where
  "sigquit_handler s =
     (Exit 1, emit (Printf ''Terminating after receipt of SIGQUIT signal\<newline>'' []) s)"

text \<open>
  The delivery of one signal runs its handler to the end (no handler is interrupted by
  another). The only signal that the shell ever blocks is \<^verbatim>\<open>SIGCHLD\<close>. The children that
  the handler of \<^verbatim>\<open>SIGCHLD\<close> has not examined when it returns stay with the operating
  system.
\<close>

fun deliver :: "shell \<Rightarrow> sigev \<Rightarrow> stop \<times> shell + shell" where
  "deliver s (Sigchld rs fin) =
     (case sigchld_handler s rs fin of Inl e \<Rightarrow> Inl e | Inr (s', rest) \<Rightarrow> Inr s')"
| "deliver s (Sigint k) = Inr (sigint_handler s SIGINT k)"
| "deliver s (Sigtstp k) = Inr (sigtstp_handler s SIGTSTP k)"
| "deliver s Sigusr1 = Inr (sigusr1_handler s)"
| "deliver s Sigquit = Inl (sigquit_handler s)"

fun masked :: "shell \<Rightarrow> sigev \<Rightarrow> bool" where
  "masked s (Sigchld rs fin) = sigchld_blocked s"
| "masked s (Sigint k) = False"
| "masked s (Sigtstp k) = False"
| "masked s Sigusr1 = False"
| "masked s Sigquit = False"

subsection \<open>waitfg\<close>

text \<open>
  The loop of \<^verbatim>\<open>waitfg\<close>, run against the signals that arrive. \<open>tested\<close> holds when the
  test \<^verbatim>\<open>!child_finished\<close> has succeeded and \<^verbatim>\<open>sigsuspend\<close> has not been entered yet. A
  signal that arrives there and is not blocked runs its handler, and control goes on to
  \<^verbatim>\<open>sigsuspend\<close>; a blocked one stays pending until \<^verbatim>\<open>sigsuspend\<close> installs the empty mask,
  is delivered there and ends the sleep, as does every signal that arrives during the
  sleep. When no signal is left, \<^verbatim>\<open>sigsuspend\<close> never returns. The function returns the
  arrivals it has not used.
\<close>

fun waitfg_loop ::
  "bool \<Rightarrow> shell \<Rightarrow> int \<Rightarrow> arrival list \<Rightarrow> stop \<times> shell + shell \<times> arrival list" where
  "waitfg_loop tested s p [] =
     (if \<not> tested \<and> child_finished s \<noteq> 0 then Inr (emit (Waitpid_nohang p) s, [])
      else Inl (Suspended, s))"
| "waitfg_loop tested s p (a # as) =
     (if \<not> tested \<and> child_finished s \<noteq> 0 then Inr (emit (Waitpid_nohang p) s, a # as)
      else (case a of
              Before_suspend ev \<Rightarrow>
                (case deliver s ev of
                   Inl e \<Rightarrow> Inl e
                 | Inr s' \<Rightarrow> waitfg_loop (\<not> masked s ev) s' p as)
            | During_suspend ev \<Rightarrow>
                (case deliver s ev of
                   Inl e \<Rightarrow> Inl e
                 | Inr s' \<Rightarrow> waitfg_loop False s' p as)))"

definition waitfg :: "shell \<Rightarrow> int \<Rightarrow> arrival list \<Rightarrow> stop \<times> shell + shell \<times> arrival list" where
  "waitfg s p as = waitfg_loop False s p as"

subsection \<open>The builtin commands and eval\<close>

text \<open>
  \<^verbatim>\<open>atoi\<close> of the C library, as glibc on Linux x86-64 computes it: \<^verbatim>\<open>(int) strtol(s, NULL, 10)\<close>.
  \<^verbatim>\<open>strtol\<close> skips white space, reads a sign and the decimal digits that follow (the value
  is 0 when there are none), and returns \<^verbatim>\<open>LONG_MAX\<close> or \<^verbatim>\<open>LONG_MIN\<close> when the value does not
  fit the 64 bits of a \<^verbatim>\<open>long\<close>. The conversion to the 32 bits of the \<^verbatim>\<open>int\<close> that \<^verbatim>\<open>do_bgfg\<close>
  stores the result in keeps the value modulo \<open>2 ^ 32\<close>: \<^verbatim>\<open>atoi("4294967297")\<close> is 1.
\<close>

definition isspace :: "char \<Rightarrow> bool" where
  "isspace c = (c \<in> set [CHR '' '', CHR 0x09, CHR 0x0A, CHR 0x0B, CHR 0x0C, CHR 0x0D])"

definition isdigit :: "char \<Rightarrow> bool" where
  "isdigit c = (c \<in> set ''0123456789'')"

fun atoi_digits :: "int \<Rightarrow> string \<Rightarrow> int" where
  "atoi_digits acc [] = acc"
| "atoi_digits acc (c # cs) =
     (if isdigit c then atoi_digits (10 * acc + (of_char c - 48)) cs else acc)"

definition LONG_MAX :: int where
  "LONG_MAX = 9223372036854775807"

definition LONG_MIN :: int where
  "LONG_MIN = - 9223372036854775808"

definition strtol :: "string \<Rightarrow> int" where
  "strtol str =
     (case dropWhile isspace str of
        [] \<Rightarrow> 0
      | c # cs \<Rightarrow>
          if c = CHR ''-'' then max LONG_MIN (- atoi_digits 0 cs)
          else if c = CHR ''+'' then min LONG_MAX (atoi_digits 0 cs)
          else min LONG_MAX (atoi_digits 0 (c # cs)))"

definition int_of_long :: "int \<Rightarrow> int" where
  "int_of_long v = (v + 2147483648) mod 4294967296 - 2147483648"

definition atoi :: "string \<Rightarrow> int" where
  "atoi str = int_of_long (strtol str)"

text \<open>
  \<^verbatim>\<open>argv\<close> is the list of the arguments before the terminating \<^verbatim>\<open>NULL\<close>, so
  \<^verbatim>\<open>argv[1] == NULL\<close> is \<open>length argv < 2\<close>. \<^verbatim>\<open>do_bgfg\<close> is called with \<^verbatim>\<open>argv[0]\<close> equal to
  \<^verbatim>\<open>fg\<close> or \<^verbatim>\<open>bg\<close> only. \<open>k\<close> is the result of \<^verbatim>\<open>kill\<close>.
\<close>

definition do_bgfg ::
  "shell \<Rightarrow> string list \<Rightarrow> int \<times> int \<Rightarrow> arrival list \<Rightarrow> stop \<times> shell + shell \<times> arrival list" where
  "do_bgfg s argv k as =
     (if length argv < 2
      then Inr (emit (Printf ''%s command requires PID or %%jobid argument\<newline>'' [S (argv ! 0)]) s, as)
      else
        (case (if argv ! 1 \<noteq> [] \<and> hd (argv ! 1) = CHR ''%''
               then (case getjobjid (jobs s) (atoi (tl (argv ! 1))) of
                       None \<Rightarrow> Inl (Printf ''%%%d: No such job\<newline>'' [I (atoi (tl (argv ! 1)))])
                     | Some i \<Rightarrow> Inr i)
               else (case getjobpid (jobs s) (atoi (argv ! 1)) of
                       None \<Rightarrow> Inl (Printf ''(%d): No such process\<newline>'' [I (atoi (argv ! 1))])
                     | Some i \<Rightarrow> Inr i)) of
           Inl msg \<Rightarrow> Inr (emit msg s, as)
         | Inr i \<Rightarrow>
             (let job = jobs s ! i;
                  s1 = emit (Kill (- pid job) SIGCONT) s;
                  s2 = (if fst k < 0 then emit (Perror ''kill (SIGCONT) error'') s1 else s1)
              in if argv ! 0 = ''fg''
                 then waitfg (s2\<lparr>jobs := (jobs s2)[i := job\<lparr>state := FG\<rparr>]\<rparr>) (pid job) as
                 else Inr ((emit (Printf ''[%d] (%d) %s'' [I (jid job), I (pid job), S (cmdline job)]) s2)
                             \<lparr>jobs := (jobs s2)[i := job\<lparr>state := BG\<rparr>]\<rparr>, as))))"

definition builtin_cmd ::
  "shell \<Rightarrow> string list \<Rightarrow> int \<times> int \<Rightarrow> arrival list
     \<Rightarrow> stop \<times> shell + int \<times> shell \<times> arrival list" where
  "builtin_cmd s argv k as =
     (if argv ! 0 = ''quit'' then Inl (sigquit_handler s)
      else if argv ! 0 = ''fg''
      then (case do_bgfg s argv k as of Inl e \<Rightarrow> Inl e | Inr (s', as') \<Rightarrow> Inr (1, s', as'))
      else if argv ! 0 = ''bg''
      then (case do_bgfg s argv k as of Inl e \<Rightarrow> Inl e | Inr (s', as') \<Rightarrow> Inr (1, s', as'))
      else if argv ! 0 = ''jobs'' then Inr (1, listjobs s, as)
      else Inr (0, s, as))"

text \<open>
  The child after \<^verbatim>\<open>fork\<close>: it ends in \<^verbatim>\<open>exit(1)\<close> or in the program that \<^verbatim>\<open>execvp\<close> starts.
\<close>

definition child_after_fork :: "shell \<Rightarrow> string list \<Rightarrow> os \<Rightarrow> stop \<times> shell" where
  "child_after_fork s argv os =
     (if setpgid_ret os < 0 then (Exit 1, emit (Eprintf ''setpgid error\<newline>'' []) s)
      else if child_unblock_ret os < 0
      then (Exit 1, emit (Eprintf ''sigprocmask error\<newline>'' []) s)
      else if execvp_ret os < 0
      then (Exit 1, emit (Printf ''%s: Command not found\<newline>'' [S (argv ! 0)])
                      (s\<lparr>sigchld_blocked := False\<rparr>))
      else (Exec argv, s\<lparr>sigchld_blocked := False\<rparr>))"

text \<open>
  \<^verbatim>\<open>eval\<close>, from the point where \<^verbatim>\<open>parseline\<close> has split the command line: \<open>args\<close> are the
  arguments it found and \<open>cl\<close> is the line as it was read. The first argument \<^verbatim>\<open>&\<close> sets
  \<^verbatim>\<open>bg\<close> and ends the argument list. The branch for \<^verbatim>\<open>fork\<close> returning 0 is the child. In
  the parent the signals of a command are those that \<^verbatim>\<open>waitfg\<close> takes: the executions
  described are those in which no handler runs between two other statements of \<^verbatim>\<open>eval\<close>.
\<close>

definition eval ::
  "shell \<Rightarrow> string list \<Rightarrow> string \<Rightarrow> os \<Rightarrow> arrival list \<Rightarrow> stop \<times> shell + shell \<times> arrival list" where
  "eval s args cl os as =
     (let bg = (''&'' \<in> set args);
          argv = takeWhile (\<lambda>a. a \<noteq> ''&'') args
      in if argv = [] then Inr (s, as)
         else (case builtin_cmd s argv (kill_ret os) as of
            Inl e \<Rightarrow> Inl e
          | Inr (b, s1, as1) \<Rightarrow>
              if b \<noteq> 0 then Inr (s1, as1)
              else if block_ret os < 0
              then Inr (emit (Eprintf ''sigprocmask error\<newline>'' []) s1, as1)
              else
                (let s2 = s1\<lparr>sigchld_blocked := True, child_finished := 0\<rparr> in
                 if fork_ret os < 0 then Inr (emit (Eprintf ''fork error\<newline>'' []) s2, as1)
                 else if fork_ret os = 0 then Inl (child_after_fork s2 argv os)
                 else if \<not> bg then
                   (case addjob s2 (fork_ret os) FG cl of
                      Inl e \<Rightarrow> Inl e
                    | Inr (r, s3) \<Rightarrow>
                        if r = 0 then Inr (emit (Eprintf ''Failed to add job\<newline>'' []) s3, as1)
                        else if unblock_ret os < 0
                        then Inr (emit (Eprintf ''sigprocmask error\<newline>'' []) s3, as1)
                        else waitfg (s3\<lparr>sigchld_blocked := False\<rparr>) (fork_ret os) as1)
                 else
                   (case addjob s2 (fork_ret os) BG cl of
                      Inl e \<Rightarrow> Inl e
                    | Inr (r, s3) \<Rightarrow>
                        if r = 0 then Inr (emit (Eprintf ''Failed to add job\<newline>'' []) s3, as1)
                        else if unblock_ret os < 0
                        then Inr (emit (Eprintf ''sigprocmask error'' []) s3, as1)
                        else Inr (emit (Printf ''[%d] (%d) %s''
                                          [I (pid2jid (jobs s3) (fork_ret os)), I (fork_ret os), S cl])
                                    (s3\<lparr>sigchld_blocked := False\<rparr>), as1)))))"

subsection \<open>The shell from its start\<close>

text \<open>
  \<^verbatim>\<open>main\<close> clears the job list and then reads and evaluates one line after the other. A
  command is the arguments and the text of a line, the results of the system calls it
  makes, and the signals that arrive while it waits. The result is the shell as it stands
  when the lines given have been evaluated and the next one is awaited; the prompt is not
  logged, and arrivals that a command has not used are not carried over to the next.
\<close>

definition init_shell :: "int \<Rightarrow> shell" where
  "init_shell v =
     \<lparr>jobs = initjobs (replicate MAXJOBS \<lparr>pid = 0, jid = 0, state = 0, cmdline = []\<rparr>),
      verbose = v, ready = 0, child_finished = 0, sigchld_blocked = False, out = []\<rparr>"

datatype command = Command "string list" string os "arrival list"

fun read_eval_loop :: "shell \<Rightarrow> command list \<Rightarrow> stop \<times> shell + shell" where
  "read_eval_loop s [] = Inr s"
| "read_eval_loop s (Command args cl os as # cs) =
     (case eval s args cl os as of
        Inl e \<Rightarrow> Inl e
      | Inr (s', rest) \<Rightarrow> read_eval_loop s' cs)"

text \<open>The operations of the job table alone, run one after the other.\<close>

datatype table_op = Add int int string | Remove int

fun apply_ops :: "shell \<Rightarrow> table_op list \<Rightarrow> stop \<times> shell + shell" where
  "apply_ops s [] = Inr s"
| "apply_ops s (Add p st cl # ops) =
     (case addjob s p st cl of Inl e \<Rightarrow> Inl e | Inr (r, s') \<Rightarrow> apply_ops s' ops)"
| "apply_ops s (Remove p # ops) = apply_ops (s\<lparr>jobs := snd (deletejob (jobs s) p)\<rparr>) ops"

section \<open>The properties, and the inputs they are tried on\<close>

subsection \<open>Job table\<close>

text \<open>
  The jids that \<^verbatim>\<open>freejid\<close> marks as taken are those of the entries whose jid is not 0;
  the jids of the active jobs are those of the entries whose pid is not 0.
\<close>

definition used_jids :: "job_t list \<Rightarrow> int set" where
  "used_jids js = jid ` {j \<in> set js. jid j \<noteq> 0}"

definition active_jids :: "job_t list \<Rightarrow> int set" where
  "active_jids js = jid ` {j \<in> set js. pid j \<noteq> 0}"

definition jids_in_range :: "job_t list \<Rightarrow> bool" where
  "jids_in_range js = (\<forall>j\<in>set js. 0 \<le> jid j \<and> jid j \<le> int MAXJOBS)"

text \<open>
  What holds of every table that the shell builds: it has \<^term>\<open>MAXJOBS\<close> entries, every
  jid lies between 0 and \<^term>\<open>MAXJOBS\<close>, and an entry has pid 0 exactly when it has jid 0.
\<close>

definition table_ok :: "job_t list \<Rightarrow> bool" where
  "table_ok js =
     (length js = MAXJOBS \<and>
      (\<forall>j\<in>set js. 0 \<le> jid j \<and> jid j \<le> int MAXJOBS \<and> (pid j = 0) = (jid j = 0)))"

text \<open>
  A result of a function of the shell is in order when the function neither indexed outside
  an array nor left a table that breaks the invariant.
\<close>

definition res_ok :: "stop \<times> shell + shell \<times> 'a \<Rightarrow> bool" where
  "res_ok r = (case r of Inl (e, s) \<Rightarrow> e \<noteq> OutOfBounds \<and> table_ok (jobs s)
                       | Inr (s, x) \<Rightarrow> table_ok (jobs s))"

text \<open>\<open>k\<close> is the smallest integer of \<open>[1, MAXJOBS]\<close> that no active job of \<open>js\<close> uses.\<close>

definition smallest_unused :: "job_t list \<Rightarrow> int \<Rightarrow> bool" where
  "smallest_unused js k =
     (1 \<le> k \<and> k \<le> int MAXJOBS \<and> k \<notin> active_jids js \<and> (\<forall>m\<in>{1..<k}. m \<in> active_jids js))"

text \<open>No jid of \<open>[1, MAXJOBS]\<close> is free.\<close>

definition table_full :: "job_t list \<Rightarrow> bool" where
  "table_full js = (length js = MAXJOBS \<and> (\<forall>k\<in>{1..int MAXJOBS}. k \<in> active_jids js))"

definition recycle_ops :: "table_op list" where
  "recycle_ops = [Add 100 BG ''a'', Add 200 BG ''b'', Remove 100]"

text \<open>Sixteen background jobs, with the pids 101 to 116 and the jids 1 to 16.\<close>

definition full16 :: "job_t list" where
  "full16 =
     map (\<lambda>n. \<lparr>pid = 100 + int n, jid = int n, state = BG, cmdline = ''sleep 100 &\<newline>''\<rparr>)
       [1 ..< 17]"

subsection \<open>The handler of SIGCHLD\<close>

text \<open>
  A child that \<^verbatim>\<open>waitpid\<close> reports has terminated (it exited or a signal killed it) or has
  stopped. \<open>table_after js rs\<close> is the table once \<^verbatim>\<open>deletejob\<close> has been called for the
  children \<open>rs\<close> in turn. \<open>signal_msgs js rs\<close> holds one message for every child of \<open>rs\<close>
  that a signal killed, in the order of \<open>rs\<close>, with the jid that the child has in the table
  when its turn comes. \<open>reap_report\<close> is what is printed when \<^verbatim>\<open>waitpid\<close> ends the loop.
\<close>

fun terminated :: "int \<times> wstatus \<Rightarrow> bool" where
  "terminated (p, Exited c) = True"
| "terminated (p, Signaled n) = True"
| "terminated (p, Stopped n) = False"

definition table_after :: "job_t list \<Rightarrow> (int \<times> wstatus) list \<Rightarrow> job_t list" where
  "table_after js rs = foldl (\<lambda>t p. snd (deletejob t p)) js (map fst rs)"

definition signal_msgs :: "job_t list \<Rightarrow> (int \<times> wstatus) list \<Rightarrow> event list" where
  "signal_msgs js rs =
     concat (map (\<lambda>k. case rs ! k of
                          (p, Signaled n) \<Rightarrow>
                            [Printf ''Job [%d] (%d) terminated by signal %d\<newline>''
                               [I (pid2jid (table_after js (take k rs)) p), I p, I n]]
                        | (p, Exited c) \<Rightarrow> []
                        | (p, Stopped n) \<Rightarrow> [])
                 [0 ..< length rs])"

definition reap_report :: "wfin \<Rightarrow> event list" where
  "reap_report fin =
     (case fin of
        No_change \<Rightarrow> []
      | Failed errno \<Rightarrow>
          if errno = 10 then []
          else [Eprintf ''The exorcism failed. Value of errno: %d\<newline>'' [I errno]])"

subsection \<open>Sessions of the shell\<close>

text \<open>
  Every system call of a command succeeds, and \<^verbatim>\<open>fork\<close> returns \<open>p\<close>.
\<close>

definition os_ok :: "int \<Rightarrow> os" where
  "os_ok p = \<lparr>block_ret = 0, fork_ret = p, setpgid_ret = 0, child_unblock_ret = 0,
             execvp_ret = 0, unblock_ret = 0, kill_ret = (0, 0)\<rparr>"

text \<open>
  The lines \<^verbatim>\<open>sleep 100\<close>, \<^verbatim>\<open>sleep 100 &\<close> and \<^verbatim>\<open>fg <arg>\<close>; the child of the first two has
  the pid \<open>p\<close>.
\<close>

definition sleep_fg :: "int \<Rightarrow> arrival list \<Rightarrow> command" where
  "sleep_fg p as = Command [''sleep'', ''100''] ''sleep 100\<newline>'' (os_ok p) as"

definition sleep_bg :: "int \<Rightarrow> command" where
  "sleep_bg p = Command [''sleep'', ''100'', ''&''] ''sleep 100 &\<newline>'' (os_ok p) []"

definition fg_cmd :: "string \<Rightarrow> arrival list \<Rightarrow> command" where
  "fg_cmd a as = Command [''fg'', a] (''fg '' @ a @ ''\<newline>'') (os_ok 0) as"

text \<open>
  The user types ctrl-z while the shell sleeps in \<^verbatim>\<open>sigsuspend\<close>: \<^verbatim>\<open>SIGTSTP\<close> arrives, its
  handler signals the foreground job \<open>p\<close>, the job stops, and \<^verbatim>\<open>SIGCHLD\<close> arrives.
\<close>

definition ctrl_z :: "int \<Rightarrow> arrival list" where
  "ctrl_z p = [During_suspend (Sigtstp (0, 0)),
              During_suspend (Sigchld [(p, Stopped SIGTSTP)] No_change)]"

text \<open>Sixteen times \<^verbatim>\<open>sleep 100 &\<close>; the children have the pids 101 to 116.\<close>

definition sixteen_bg :: "command list" where
  "sixteen_bg = map (\<lambda>n. sleep_bg (100 + int n)) [1 ..< 17]"

text \<open>The shell with one job, \<^verbatim>\<open>sleep 100\<close> in the foreground, and with three jobs.\<close>

definition fg_running :: shell where
  "fg_running =
     (init_shell 0)\<lparr>jobs := (jobs (init_shell 0))
        [0 := \<lparr>pid = 100, jid = 1, state = FG, cmdline = ''sleep 100\<newline>''\<rparr>]\<rparr>"

definition three_jobs :: shell where
  "three_jobs =
     (init_shell 0)\<lparr>jobs := (jobs (init_shell 0))
        [0 := \<lparr>pid = 100, jid = 1, state = FG, cmdline = ''sleep 100\<newline>''\<rparr>,
         1 := \<lparr>pid = 200, jid = 2, state = BG, cmdline = ''sleep 200 &\<newline>''\<rparr>,
         2 := \<lparr>pid = 300, jid = 3, state = BG, cmdline = ''sleep 300 &\<newline>''\<rparr>]\<rparr>"

definition reaps4 :: "(int \<times> wstatus) list" where
  "reaps4 = [(200, Signaled 9), (300, Exited 0), (100, Stopped 20), (400, Exited 0)]"

section \<open>Proofs\<close>

subsection \<open>freejid returns the smallest jid that is not taken\<close>

lemma mark_taken_Some:
  "mark_taken js t = Some t' \<Longrightarrow>
     length t' = length t \<and>
     (\<forall>k<length t. t' ! k = (t ! k \<or> int k \<in> used_jids js))"
proof (induction js arbitrary: t)
  case Nil
  then show ?case by (simp add: used_jids_def)
next
  case (Cons j js)
  show ?case
  proof (cases "jid j = 0")
    case True
    with Cons.prems have "mark_taken js t = Some t'" by simp
    from Cons.IH[OF this] True show ?thesis by (auto simp: used_jids_def)
  next
    case False
    with Cons.prems have rng: "0 \<le> jid j" "nat (jid j) < length t"
      and rec: "mark_taken js (t[nat (jid j) := True]) = Some t'"
      by (auto split: if_splits)
    from Cons.IH[OF rec] have len: "length t' = length t"
      and ih: "\<forall>k<length t. t' ! k = ((t[nat (jid j) := True]) ! k \<or> int k \<in> used_jids js)"
      by auto
    have "t' ! k = (t ! k \<or> int k \<in> used_jids (j # js))" if "k < length t" for k
    proof -
      from ih that have "t' ! k = ((t[nat (jid j) := True]) ! k \<or> int k \<in> used_jids js)" by blast
      moreover have "(t[nat (jid j) := True]) ! k = (t ! k \<or> int k = jid j)"
        using that rng by (auto simp: nth_list_update)
      moreover have "int k \<in> used_jids (j # js) = (int k = jid j \<or> int k \<in> used_jids js)"
        using False by (auto simp: used_jids_def)
      ultimately show ?thesis by blast
    qed
    with len show ?thesis by blast
  qed
qed

lemma mark_taken_total:
  "\<forall>j\<in>set js. 0 \<le> jid j \<and> nat (jid j) < length t \<Longrightarrow> \<exists>t'. mark_taken js t = Some t'"
  by (induction js arbitrary: t) auto

lemma find_upt_None: "find P [a ..< b] = None \<Longrightarrow> a \<le> m \<Longrightarrow> m < b \<Longrightarrow> \<not> P m"
  by (auto simp: find_None_iff)

lemma find_upt_Some:
  "find P [a ..< b] = Some k \<Longrightarrow> a \<le> k \<and> k < b \<and> P k \<and> (\<forall>m. a \<le> m \<and> m < k \<longrightarrow> \<not> P m)"
  apply (auto simp: find_Some_iff)
  by (metis add.commute add_diff_cancel_right' le_Suc_ex nat_add_left_cancel_less)

lemma freejid_spec:
  assumes "jids_in_range js"
  shows "\<exists>k. freejid js = Some k \<and>
     (if k = 0 then \<forall>m. 1 \<le> m \<and> m \<le> int MAXJOBS \<longrightarrow> m \<in> used_jids js
      else 1 \<le> k \<and> k \<le> int MAXJOBS \<and> k \<notin> used_jids js \<and>
           (\<forall>m. 1 \<le> m \<and> m < k \<longrightarrow> m \<in> used_jids js))"
proof -
  let ?t0 = "replicate (MAXJOBS + 1) False"
  from assms have "\<forall>j\<in>set js. 0 \<le> jid j \<and> nat (jid j) < length ?t0"
    by (auto simp: jids_in_range_def)
  from mark_taken_total[OF this] obtain t where t: "mark_taken js ?t0 = Some t" by blast
  have l0: "length ?t0 = MAXJOBS + 1" by (simp only: length_replicate)
  have t0: "\<not> ?t0 ! k" if "k < MAXJOBS + 1" for k
    using that by (simp only: nth_replicate) simp
  from mark_taken_Some[OF t] have "length t = length ?t0"
    and "\<forall>k<length ?t0. t ! k = (?t0 ! k \<or> int k \<in> used_jids js)" by blast+
  with l0 t0 have len: "length t = MAXJOBS + 1"
    and mk: "\<And>k. k < MAXJOBS + 1 \<Longrightarrow> t ! k = (int k \<in> used_jids js)"
    by metis+
  show ?thesis
  proof (cases "find (\<lambda>i. \<not> t ! i) [1 ..< MAXJOBS + 1]")
    case None
    have "m \<in> used_jids js" if "1 \<le> m" "m \<le> int MAXJOBS" for m
    proof -
      from that have "1 \<le> nat m" "nat m < MAXJOBS + 1" by auto
      from find_upt_None[OF None this] have "t ! nat m" by simp
      with mk[of "nat m"] that show ?thesis by auto
    qed
    with t None show ?thesis by (simp add: freejid_def)
  next
    case (Some i)
    from find_upt_Some[OF Some] have i: "1 \<le> i" "i < MAXJOBS + 1" "\<not> t ! i"
      and less: "\<And>m. 1 \<le> m \<Longrightarrow> m < i \<Longrightarrow> t ! m" by auto
    have "int i \<notin> used_jids js" using mk[of i] i by simp
    moreover have "m \<in> used_jids js" if "1 \<le> m" "m < int i" for m
    proof -
      from that have "1 \<le> nat m" "nat m < i" by auto
      from less[OF this] mk[of "nat m"] that i show ?thesis by auto
    qed
    ultimately show ?thesis using t Some i by (simp add: freejid_def)
  qed
qed

subsection \<open>The invariant of the job table\<close>

lemma table_ok_range: "table_ok js \<Longrightarrow> jids_in_range js"
  by (simp add: table_ok_def jids_in_range_def)

lemma addjob_loop_Some:
  "addjob_loop js p st k cl = Some js' \<Longrightarrow>
     \<exists>i<length js. pid (js ! i) = 0 \<and>
        js' = js[i := \<lparr>pid = p, jid = k, state = st, cmdline = cl\<rparr>]"
proof (induction js arbitrary: js')
  case Nil
  then show ?case by simp
next
  case (Cons j js)
  show ?case
  proof (cases "pid j = 0")
    case True
    with Cons.prems have "js' = (j # js)[0 := \<lparr>pid = p, jid = k, state = st, cmdline = cl\<rparr>]"
      by auto
    with True show ?thesis by (intro exI[of _ 0]) simp
  next
    case False
    with Cons.prems obtain r where r: "addjob_loop js p st k cl = Some r" and js': "js' = j # r"
      by auto
    from Cons.IH[OF r] obtain i where "i < length js" "pid (js ! i) = 0"
      "r = js[i := \<lparr>pid = p, jid = k, state = st, cmdline = cl\<rparr>]" by blast
    with js' show ?thesis by (intro exI[of _ "Suc i"]) simp
  qed
qed

lemma deletejob_loop_Some:
  "deletejob_loop js p = Some js' \<Longrightarrow>
     \<exists>i<length js. pid (js ! i) = p \<and> (\<forall>m<i. pid (js ! m) \<noteq> p) \<and> js' = js[i := clearjob (js ! i)]"
proof (induction js arbitrary: js')
  case Nil
  then show ?case by simp
next
  case (Cons j js)
  show ?case
  proof (cases "pid j = p")
    case True
    with Cons.prems have "js' = (j # js)[0 := clearjob ((j # js) ! 0)]" by auto
    with True show ?thesis by (intro exI[of _ 0]) simp
  next
    case False
    with Cons.prems obtain r where r: "deletejob_loop js p = Some r" and js': "js' = j # r"
      by auto
    from Cons.IH[OF r] obtain i where i: "i < length js" "pid (js ! i) = p"
      "\<forall>m<i. pid (js ! m) \<noteq> p" "r = js[i := clearjob (js ! i)]" by blast
    have "\<forall>m<Suc i. pid ((j # js) ! m) \<noteq> p"
      using False i(3) by (auto simp: nth_Cons split: nat.splits)
    with i js' show ?thesis by (intro exI[of _ "Suc i"]) simp
  qed
qed

lemma table_ok_update:
  assumes "table_ok js" and "0 \<le> jid j" and "jid j \<le> int MAXJOBS" and "(pid j = 0) = (jid j = 0)"
  shows "table_ok (js[i := j])"
  using assms by (auto simp: table_ok_def dest!: set_update_subset_insert[THEN subsetD])

lemma table_ok_deletejob: "table_ok js \<Longrightarrow> table_ok (snd (deletejob js p))"
  by (auto simp: deletejob_def clearjob_def split: option.splits
      dest!: deletejob_loop_Some intro!: table_ok_update)

lemma table_ok_init: "table_ok (jobs (init_shell v))"
  by (simp add: init_shell_def initjobs_def table_ok_def clearjob_def MAXJOBS_def)

lemma table_ok_used: "table_ok js \<Longrightarrow> used_jids js = active_jids js"
  by (auto simp: table_ok_def used_jids_def active_jids_def)

lemma addjob_table_ok:
  assumes ok: "table_ok (jobs s)"
  shows "\<exists>r s'. addjob s p st cl = Inr (r, s') \<and> table_ok (jobs s') \<and>
     (r = 1 \<longrightarrow> (\<exists>i k. i < MAXJOBS \<and> pid (jobs s ! i) = 0 \<and> smallest_unused (jobs s) k \<and>
         jobs s' = (jobs s)[i := \<lparr>pid = p, jid = k, state = st, cmdline = cl\<rparr>]))"
proof (cases "p < 1")
  case True
  with ok show ?thesis by (simp add: addjob_def)
next
  case False
  from freejid_spec[OF table_ok_range[OF ok]] table_ok_used[OF ok]
  obtain k where k: "freejid (jobs s) = Some k"
    and spec: "k \<noteq> 0 \<Longrightarrow> 1 \<le> k \<and> k \<le> int MAXJOBS \<and> k \<notin> active_jids (jobs s) \<and>
           (\<forall>m. 1 \<le> m \<and> m < k \<longrightarrow> m \<in> active_jids (jobs s))"
    by (auto split: if_splits)
  show ?thesis
  proof (cases "k = 0")
    case True
    with False k ok show ?thesis by (simp add: addjob_def emit_def)
  next
    case nz: False
    from spec[OF nz] have small: "smallest_unused (jobs s) k" and rng: "1 \<le> k" "k \<le> int MAXJOBS"
      by (auto simp: smallest_unused_def)
    show ?thesis
    proof (cases "addjob_loop (jobs s) p st k cl")
      case None
      with False k nz ok show ?thesis by (simp add: addjob_def)
    next
      case (Some js')
      from addjob_loop_Some[OF Some] obtain i where i: "i < length (jobs s)" "pid (jobs s ! i) = 0"
        "js' = (jobs s)[i := \<lparr>pid = p, jid = k, state = st, cmdline = cl\<rparr>]" by blast
      from ok i(3) rng False have ok': "table_ok js'"
        by (auto intro!: table_ok_update)
      from ok i(1) have "i < MAXJOBS" by (simp add: table_ok_def)
      with False k nz Some i ok' small show ?thesis
        by (auto simp: addjob_def emit_def)
    qed
  qed
qed

lemma apply_ops_table_ok:
  "table_ok (jobs s) \<Longrightarrow> \<exists>s'. apply_ops s ops = Inr s' \<and> table_ok (jobs s')"
proof (induction ops arbitrary: s)
  case Nil
  then show ?case by simp
next
  case (Cons x ops)
  show ?case
  proof (cases x)
    case (Add p st cl)
    from addjob_table_ok[OF Cons.prems, of p st cl] obtain r s1
      where "addjob s p st cl = Inr (r, s1)" "table_ok (jobs s1)" by blast
    with Cons.IH[of s1] Add show ?thesis by simp
  next
    case (Remove p)
    from table_ok_deletejob[OF Cons.prems, of p]
    have "table_ok (jobs (s\<lparr>jobs := snd (deletejob (jobs s) p)\<rparr>))" by simp
    from Cons.IH[OF this] Remove show ?thesis by simp
  qed
qed

text \<open>
  C6. Whatever sequence of \<^verbatim>\<open>addjob\<close> and \<^verbatim>\<open>deletejob\<close> calls is run on the cleared job
  list, the sequence runs to its end (no call indexes outside \<^verbatim>\<open>taken\<close>), and in the table
  it leaves, every call of \<^verbatim>\<open>addjob\<close> returns, and one that returns 1 has written the new
  job into an entry that was free, with the smallest integer of \<open>[1, MAXJOBS]\<close> that no
  active job uses as its jid: a jid is used again once its job is deleted.
\<close>

theorem addjob_assigns_smallest_unused_jid:
  "\<exists>s. apply_ops (init_shell v) ops = Inr s \<and>
     (\<forall>p st cl. \<exists>r s'. addjob s p st cl = Inr (r, s') \<and>
        (r = 1 \<longrightarrow> (\<exists>i k. i < MAXJOBS \<and> pid (jobs s ! i) = 0 \<and> smallest_unused (jobs s) k \<and>
                     jobs s' = (jobs s)[i := \<lparr>pid = p, jid = k, state = st, cmdline = cl\<rparr>])))"
proof -
  from apply_ops_table_ok[OF table_ok_init, of v ops] obtain s
    where s: "apply_ops (init_shell v) ops = Inr s" and ok: "table_ok (jobs s)" by blast
  from addjob_table_ok[OF ok] have "\<forall>p st cl. \<exists>r s'. addjob s p st cl = Inr (r, s') \<and>
        (r = 1 \<longrightarrow> (\<exists>i k. i < MAXJOBS \<and> pid (jobs s ! i) = 0 \<and> smallest_unused (jobs s) k \<and>
                     jobs s' = (jobs s)[i := \<lparr>pid = p, jid = k, state = st, cmdline = cl\<rparr>]))"
    by blast
  with s show ?thesis by blast
qed

theorem addjob_assigns_smallest_unused_jid_witness:
  "\<exists>s s' i k. apply_ops (init_shell 0) recycle_ops = Inr s \<and>
      addjob s 300 FG ''c'' = Inr (1, s') \<and> i < MAXJOBS \<and> pid (jobs s ! i) = 0 \<and>
      smallest_unused (jobs s) k \<and>
      jobs s' = (jobs s)[i := \<lparr>pid = 300, jid = k, state = FG, cmdline = ''c''\<rparr>] \<and>
      pid2jid (jobs s) 200 = 2 \<and> pid2jid (jobs s') 300 = 1"
proof -
  define S where "S = (init_shell 0)\<lparr>jobs := (jobs (init_shell 0))[1 := \<lparr>pid = 200, jid = 2, state = BG, cmdline = ''b''\<rparr>]\<rparr>"
  define S' where "S' = (init_shell 0)\<lparr>jobs := (jobs (init_shell 0))[1 := \<lparr>pid = 200, jid = 2, state = BG, cmdline = ''b''\<rparr>,
     0 := \<lparr>pid = 300, jid = 1, state = FG, cmdline = ''c''\<rparr>]\<rparr>"
  have run: "apply_ops (init_shell 0) recycle_ops = Inr S" unfolding S_def by code_simp
  have add: "addjob S 300 FG ''c'' = Inr (1, S')" unfolding S_def S'_def by code_simp
  have a: "pid2jid (jobs S) 200 = 2" unfolding S_def by code_simp
  have b: "pid2jid (jobs S') 300 = 1" unfolding S'_def by code_simp
  from addjob_assigns_smallest_unused_jid[of 0 recycle_ops] obtain s
    where s: "apply_ops (init_shell 0) recycle_ops = Inr s"
      and H: "\<And>p st cl. \<exists>r s'. addjob s p st cl = Inr (r, s') \<and>
        (r = 1 \<longrightarrow> (\<exists>i k. i < MAXJOBS \<and> pid (jobs s ! i) = 0 \<and> smallest_unused (jobs s) k \<and>
                     jobs s' = (jobs s)[i := \<lparr>pid = p, jid = k, state = st, cmdline = cl\<rparr>]))"
    by blast
  from s run have eq: "s = S" by simp
  from H[of 300 FG "''c''"] obtain r s'
    where r: "addjob s 300 FG ''c'' = Inr (r, s')"
      and imp: "r = 1 \<longrightarrow> (\<exists>i k. i < MAXJOBS \<and> pid (jobs s ! i) = 0 \<and> smallest_unused (jobs s) k \<and>
                     jobs s' = (jobs s)[i := \<lparr>pid = 300, jid = k, state = FG, cmdline = ''c''\<rparr>])"
    by blast
  from r add eq have r1: "r = 1" and s': "s' = S'" by simp_all
  from imp r1 s' eq obtain i k where "i < MAXJOBS" "pid (jobs S ! i) = 0" "smallest_unused (jobs S) k"
      "jobs S' = (jobs S)[i := \<lparr>pid = 300, jid = k, state = FG, cmdline = ''c''\<rparr>]" by blast
  with run add a b show ?thesis by blast
qed

subsection \<open>The full table\<close>

lemma table_full_all_used:
  assumes "table_full js"
  shows "jids_in_range js" and "\<forall>m. 1 \<le> m \<and> m \<le> int MAXJOBS \<longrightarrow> m \<in> used_jids js"
proof -
  let ?A = "{j \<in> set js. pid j \<noteq> 0}"
  from assms have len: "length js = MAXJOBS" and sub: "{1..int MAXJOBS} \<subseteq> jid ` ?A"
    by (auto simp: table_full_def active_jids_def)
  have "card {1..int MAXJOBS} = MAXJOBS" by simp
  also have "\<dots> = length js" using len by simp
  finally have c16: "card {1..int MAXJOBS} = length js" .
  have c1: "card (jid ` ?A) \<le> card ?A" by (simp add: card_image_le)
  have c2: "card ?A \<le> card (set js)" by (simp add: card_mono)
  have c3: "card (set js) \<le> length js" by (rule card_length)
  from sub have c0: "card {1..int MAXJOBS} \<le> card (jid ` ?A)" by (intro card_mono) auto
  have img: "{1..int MAXJOBS} = jid ` ?A"
    using sub c0 c1 c2 c3 c16 by (intro card_seteq) auto
  have all: "?A = set js"
    using c0 c1 c2 c3 c16 by (intro card_seteq) auto
  show "jids_in_range js"
    unfolding jids_in_range_def
  proof
    fix j assume "j \<in> set js"
    with all have "j \<in> ?A" by simp
    then have "jid j \<in> jid ` ?A" by (rule imageI)
    with img have "jid j \<in> {1..int MAXJOBS}" by simp
    then show "0 \<le> jid j \<and> jid j \<le> int MAXJOBS" by simp
  qed
  show "\<forall>m. 1 \<le> m \<and> m \<le> int MAXJOBS \<longrightarrow> m \<in> used_jids js"
  proof (intro allI impI)
    fix m assume m: "1 \<le> m \<and> m \<le> int MAXJOBS"
    with sub have "m \<in> jid ` ?A" by auto
    with m show "m \<in> used_jids js" by (auto simp: used_jids_def)
  qed
qed

lemma freejid_full: "table_full js \<Longrightarrow> freejid js = Some 0"
proof -
  assume f: "table_full js"
  from freejid_spec[OF table_full_all_used(1)[OF f]] obtain k where k: "freejid js = Some k"
    and spec: "k \<noteq> 0 \<Longrightarrow> 1 \<le> k \<and> k \<le> int MAXJOBS \<and> k \<notin> used_jids js"
    by (auto split: if_splits)
  from table_full_all_used(2)[OF f] spec have "k = 0" by blast
  with k show ?thesis by simp
qed

text \<open>
  C8. On a table in which no jid of \<open>[1, MAXJOBS]\<close> is free, \<^verbatim>\<open>addjob\<close> returns 0 and
  leaves the job list as it was, entry by entry; called with a process id (\<open>1 \<le> p\<close>, as
  every result of \<^verbatim>\<open>fork\<close> in the parent is), it prints that too many jobs were created.
\<close>

theorem addjob_table_full:
  assumes "table_full (jobs s)"
  shows "\<exists>s'. addjob s p st cl = Inr (0, s') \<and> jobs s' = jobs s \<and>
           (1 \<le> p \<longrightarrow> out s' = out s @ [Printf ''Tried to create too many jobs\<newline>'' []])"
  using freejid_full[OF assms] by (simp add: addjob_def emit_def)

lemma full16_full: "table_full full16"
  by code_simp

theorem addjob_table_full_witness:
  "table_full (jobs ((init_shell 0)\<lparr>jobs := full16\<rparr>)) \<and>
   (\<exists>s'. addjob ((init_shell 0)\<lparr>jobs := full16\<rparr>) 117 FG ''ls\<newline>'' = Inr (0, s') \<and> jobs s' = full16 \<and>
         out s' = [Printf ''Tried to create too many jobs\<newline>'' []])"
proof -
  have f: "table_full (jobs ((init_shell 0)\<lparr>jobs := full16\<rparr>))" using full16_full by simp
  have o: "out ((init_shell 0)\<lparr>jobs := full16\<rparr>) = []" by (simp add: init_shell_def)
  from addjob_table_full[OF f, of 117 FG "''ls\<newline>''"] f o show ?thesis by auto
qed

subsection \<open>The handler of SIGCHLD\<close>

lemma table_after_Nil [simp]: "table_after js [] = js"
  by (simp add: table_after_def)

lemma table_after_Cons [simp]:
  "table_after js (r # rs) = table_after (snd (deletejob js (fst r))) rs"
  by (simp add: table_after_def)

lemma signal_msgs_Nil [simp]: "signal_msgs js [] = []"
  by (simp add: signal_msgs_def)

lemma signal_msgs_Cons:
  "signal_msgs js (r # rs) =
     (case r of
        (p, Signaled n) \<Rightarrow>
          [Printf ''Job [%d] (%d) terminated by signal %d\<newline>'' [I (pid2jid js p), I p, I n]]
      | (p, Exited c) \<Rightarrow> []
      | (p, Stopped n) \<Rightarrow> []) @
     signal_msgs (snd (deletejob js (fst r))) rs"
proof -
  have "[0 ..< length (r # rs)] = 0 # map Suc [0 ..< length rs]"
    by (simp add: upt_conv_Cons map_Suc_upt del: upt_Suc)
  then show ?thesis
    by (simp add: signal_msgs_def comp_def del: upt_Suc)
qed

lemma handler_terminated_prefix:
  "\<forall>r\<in>set pre. terminated r \<Longrightarrow>
     sigchld_handler s (pre @ rest) fin =
       sigchld_handler
         (s\<lparr>jobs := table_after (jobs s) pre,
            child_finished := (if pre = [] then child_finished s else 1),
            out := out s @ signal_msgs (jobs s) pre\<rparr>) rest fin"
proof (induction pre arbitrary: s)
  case Nil
  then show ?case by simp
next
  case (Cons r pre)
  obtain p st where r: "r = (p, st)" by (cases r)
  from Cons.prems have pre: "\<forall>r\<in>set pre. terminated r" by simp
  show ?case
  proof (cases st)
    case (Exited c)
    show ?thesis
      using Cons.IH[OF pre, of "s\<lparr>child_finished := 1, jobs := snd (deletejob (jobs s) p)\<rparr>"]
      by (simp add: r Exited signal_msgs_Cons)
  next
    case (Signaled n)
    show ?thesis
      using Cons.IH[OF pre, of "(emit (Printf ''Job [%d] (%d) terminated by signal %d\<newline>''
                       [I (pid2jid (jobs s) p), I p, I n]) s)\<lparr>child_finished := 1, jobs := snd (deletejob (jobs s) p)\<rparr>"]
      by (simp add: r Signaled signal_msgs_Cons emit_def)
  next
    case (Stopped n)
    with Cons.prems r show ?thesis by simp
  qed
qed

lemma find_from_Some:
  "find_from k P js = Some i \<Longrightarrow>
     k \<le> i \<and> i - k < length js \<and> P (js ! (i - k)) \<and> (\<forall>m<i - k. \<not> P (js ! m))"
proof (induction js arbitrary: k)
  case Nil
  then show ?case by simp
next
  case (Cons j js)
  show ?case
  proof (cases "P j")
    case True
    with Cons.prems show ?thesis by simp
  next
    case False
    with Cons.prems have "find_from (Suc k) P js = Some i" by simp
    from Cons.IH[OF this] have ih: "Suc k \<le> i" "i - Suc k < length js" "P (js ! (i - Suc k))"
      "\<forall>m<i - Suc k. \<not> P (js ! m)" by auto
    then have eq: "i - k = Suc (i - Suc k)" by simp
    have "\<not> P ((j # js) ! m)" if "m < i - k" for m
      using that False ih(4) eq by (cases m) auto
    with ih eq show ?thesis by simp
  qed
qed

lemma find_from_None: "find_from k P js = None \<Longrightarrow> \<forall>j\<in>set js. \<not> P j"
  by (induction js arbitrary: k) (auto split: if_splits)

lemma getjobpid_Some:
  "getjobpid js p = Some i \<Longrightarrow> i < length js \<and> pid (js ! i) = p \<and> (\<forall>m<i. pid (js ! m) \<noteq> p) \<and> 1 \<le> p"
  by (auto simp: getjobpid_def split: if_splits dest!: find_from_Some)

lemma pid2jid_loop_first:
  "i < length js \<Longrightarrow> pid (js ! i) = p \<Longrightarrow> \<forall>m<i. pid (js ! m) \<noteq> p \<Longrightarrow> pid2jid_loop js p = jid (js ! i)"
proof (induction js arbitrary: i)
  case Nil
  then show ?case by simp
next
  case (Cons j js)
  show ?case
  proof (cases i)
    case 0
    with Cons.prems show ?thesis by simp
  next
    case (Suc i')
    with Cons.prems have "pid j \<noteq> p" by auto
    moreover from Cons.prems Suc have "pid2jid_loop js p = jid (js ! i')"
      by (intro Cons.IH) auto
    ultimately show ?thesis using Suc by simp
  qed
qed

lemma pid2jid_getjobpid: "getjobpid js p = Some i \<Longrightarrow> pid2jid js p = jid (js ! i)"
  by (auto simp: pid2jid_def dest!: getjobpid_Some intro: pid2jid_loop_first)

lemma pid2jid_loop_state_update:
  "pid2jid_loop (js[i := (js ! i)\<lparr>state := x\<rparr>]) p = pid2jid_loop js p"
proof (induction js arbitrary: i)
  case Nil
  then show ?case by simp
next
  case (Cons j js)
  then show ?case by (cases i) auto
qed

lemma pid2jid_state_update: "pid2jid (js[i := (js ! i)\<lparr>state := x\<rparr>]) p = pid2jid js p"
  by (simp add: pid2jid_def pid2jid_loop_state_update)

lemma dropWhile_terminated_Stopped:
  "dropWhile terminated rs = r # post \<Longrightarrow> \<exists>p n. r = (p, Stopped n)"
proof -
  assume a: "dropWhile terminated rs = r # post"
  then have "\<not> terminated (hd (dropWhile terminated rs))"
    by (intro hd_dropWhile) auto
  with a have "\<not> terminated r" by simp
  then show ?thesis by (cases r rule: terminated.cases) auto
qed

text \<open>
  \<^verbatim>\<open>deletejob\<close> overwrites the first entry that has the pid with the cleared entry, and
  leaves a table without such an entry as it is. When no other entry has the pid, the pid
  is not found afterwards.
\<close>

lemma deletejob_loop_first:
  "i < length js \<Longrightarrow> pid (js ! i) = p \<Longrightarrow> \<forall>m<i. pid (js ! m) \<noteq> p \<Longrightarrow>
     deletejob_loop js p = Some (js[i := \<lparr>pid = 0, jid = 0, state = 0, cmdline = []\<rparr>])"
proof (induction js arbitrary: i)
  case Nil
  then show ?case by simp
next
  case (Cons j js)
  show ?case
  proof (cases i)
    case 0
    with Cons.prems show ?thesis by (simp add: clearjob_def UNDEF_def)
  next
    case (Suc i')
    with Cons.prems have ne: "pid j \<noteq> p" by auto
    from Cons.prems Suc
    have "deletejob_loop js p = Some (js[i' := \<lparr>pid = 0, jid = 0, state = 0, cmdline = []\<rparr>])"
      by (intro Cons.IH) auto
    with ne Suc show ?thesis by simp
  qed
qed

lemma deletejob_found:
  "getjobpid js p = Some i \<Longrightarrow>
     deletejob js p = (1, js[i := \<lparr>pid = 0, jid = 0, state = 0, cmdline = []\<rparr>])"
  by (auto simp: deletejob_def dest!: getjobpid_Some simp: deletejob_loop_first)

lemma find_from_None_iff: "(find_from k P js = None) = (\<forall>j\<in>set js. \<not> P j)"
  by (induction js arbitrary: k) auto

lemma deletejob_absent: "getjobpid js p = None \<Longrightarrow> deletejob js p = (0, js)"
proof (cases "p < 1")
  case True
  then show ?thesis by (simp add: deletejob_def)
next
  case False
  assume "getjobpid js p = None"
  with False have none: "\<forall>j\<in>set js. pid j \<noteq> p"
    by (simp add: getjobpid_def find_from_None_iff)
  have "deletejob_loop js p = None" using none by (induction js) auto
  with False show ?thesis by (simp add: deletejob_def)
qed

lemma deletejob_removes:
  assumes g: "getjobpid js p = Some i"
    and uniq: "\<forall>m<length js. m \<noteq> i \<longrightarrow> pid (js ! m) \<noteq> p"
  shows "getjobpid (snd (deletejob js p)) p = None"
proof -
  from getjobpid_Some[OF g] have i: "i < length js" and p: "1 \<le> p" by auto
  let ?js = "js[i := \<lparr>pid = 0, jid = 0, state = 0, cmdline = []\<rparr>]"
  have "pid j \<noteq> p" if "j \<in> set ?js" for j
  proof -
    from that obtain m where m: "m < length js" "j = ?js ! m"
      by (auto simp: in_set_conv_nth)
    show ?thesis
    proof (cases "m = i")
      case True
      with m i p show ?thesis by simp
    next
      case False
      with m uniq show ?thesis by simp
    qed
  qed
  then have "find_from 0 (\<lambda>j. pid j = p) ?js = None" by (simp add: find_from_None_iff)
  with deletejob_found[OF g] show ?thesis by (simp add: getjobpid_def)
qed

text \<open>
  One invocation of \<^verbatim>\<open>sigchld_handler\<close>, for every shell \<open>s\<close>, every list \<open>rs\<close> of children
  that \<^verbatim>\<open>waitpid\<close> reports and every result \<open>fin\<close> that ends the reports.

  When no child of \<open>rs\<close> has stopped, the handler reaps them all: \<^verbatim>\<open>deletejob\<close> has been called
  for each, \<^verbatim>\<open>child_finished\<close> is 1 as soon as one child was reaped, one message is printed
  for every child that a signal killed, nothing is printed when \<^verbatim>\<open>waitpid\<close> ends with 0 or
  with \<^verbatim>\<open>errno\<close> 10 (no children), and any other \<^verbatim>\<open>errno\<close> is reported.

  When a child of \<open>rs\<close> has stopped and the table holds its job at that moment, the children
  before the first such child are reaped as above, the state of that job becomes \<^term>\<open>ST\<close>,
  the message that it was stopped by the signal is printed, \<^verbatim>\<open>child_finished\<close> is 1, and
  the children after it are left as they are: the handler returns without looking at them.
\<close>

lemma sigchld_handler_reaps:
  "(dropWhile terminated rs = [] \<longrightarrow>
      sigchld_handler s rs fin =
        Inr (s\<lparr>jobs := table_after (jobs s) rs,
               child_finished := (if rs = [] then child_finished s else 1),
               out := out s @ signal_msgs (jobs s) rs @ reap_report fin\<rparr>, [])) \<and>
   (\<forall>p n post i.
      dropWhile terminated rs = (p, Stopped n) # post \<and>
      getjobpid (table_after (jobs s) (takeWhile terminated rs)) p = Some i \<longrightarrow>
      sigchld_handler s rs fin =
        (let T = table_after (jobs s) (takeWhile terminated rs) in
         Inr (s\<lparr>jobs := T[i := (T ! i)\<lparr>state := ST\<rparr>],
                child_finished := 1,
                out := out s @ signal_msgs (jobs s) (takeWhile terminated rs) @
                  [Printf ''Job [%d] (%d) stopped by signal %d\<newline>'' [I (jid (T ! i)), I p, I n]]\<rparr>,
              post)))"
proof (intro conjI impI allI)
  assume "dropWhile terminated rs = []"
  then have all: "\<forall>r\<in>set rs. terminated r" by (simp add: dropWhile_eq_Nil_conv)
  from handler_terminated_prefix[OF all, of s "[]" fin]
  show "sigchld_handler s rs fin =
        Inr (s\<lparr>jobs := table_after (jobs s) rs,
               child_finished := (if rs = [] then child_finished s else 1),
               out := out s @ signal_msgs (jobs s) rs @ reap_report fin\<rparr>, [])"
    by (cases fin) (simp_all add: reap_report_def emit_def)
next
  fix p n post i
  assume a: "dropWhile terminated rs = (p, Stopped n) # post \<and>
      getjobpid (table_after (jobs s) (takeWhile terminated rs)) p = Some i"
  let ?pre = "takeWhile terminated rs"
  let ?T = "table_after (jobs s) ?pre"
  have pre: "\<forall>r\<in>set ?pre. terminated r" by (auto dest: set_takeWhileD)
  from a have rs: "rs = ?pre @ (p, Stopped n) # post"
    by (metis takeWhile_dropWhile_id)
  from a have g: "getjobpid ?T p = Some i" by simp
  have "sigchld_handler s (?pre @ (p, Stopped n) # post) fin =
        Inr (s\<lparr>jobs := ?T[i := (?T ! i)\<lparr>state := ST\<rparr>],
                child_finished := 1,
                out := out s @ signal_msgs (jobs s) ?pre @
                  [Printf ''Job [%d] (%d) stopped by signal %d\<newline>'' [I (jid (?T ! i)), I p, I n]]\<rparr>,
              post)"
    unfolding handler_terminated_prefix[OF pre]
    using g pid2jid_getjobpid[OF g]
    by (simp add: emit_def pid2jid_state_update Let_def)
  with rs show "sigchld_handler s rs fin =
        (let T = table_after (jobs s) (takeWhile terminated rs) in
         Inr (s\<lparr>jobs := T[i := (T ! i)\<lparr>state := ST\<rparr>],
                child_finished := 1,
                out := out s @ signal_msgs (jobs s) (takeWhile terminated rs) @
                  [Printf ''Job [%d] (%d) stopped by signal %d\<newline>'' [I (jid (T ! i)), I p, I n]]\<rparr>,
              post))"
    by (simp add: Let_def)
qed

text \<open>
  When the first child that has stopped has no job in the table at that moment, the
  children before it are reaped as above and the handler then writes through the null
  pointer that \<^verbatim>\<open>getjobpid\<close> returned: no state is set, no message is printed for the stopped
  child and \<^verbatim>\<open>child_finished\<close> is not set for it. The three cases are all the invocations
  there are.
\<close>

lemma sigchld_handler_every_invocation:
  "(dropWhile terminated rs = [] \<longrightarrow>
      sigchld_handler s rs fin =
        Inr (s\<lparr>jobs := table_after (jobs s) rs,
               child_finished := (if rs = [] then child_finished s else 1),
               out := out s @ signal_msgs (jobs s) rs @ reap_report fin\<rparr>, [])) \<and>
   (\<forall>p n post i.
      dropWhile terminated rs = (p, Stopped n) # post \<and>
      getjobpid (table_after (jobs s) (takeWhile terminated rs)) p = Some i \<longrightarrow>
      sigchld_handler s rs fin =
        (let T = table_after (jobs s) (takeWhile terminated rs) in
         Inr (s\<lparr>jobs := T[i := (T ! i)\<lparr>state := ST\<rparr>],
                child_finished := 1,
                out := out s @ signal_msgs (jobs s) (takeWhile terminated rs) @
                  [Printf ''Job [%d] (%d) stopped by signal %d\<newline>'' [I (jid (T ! i)), I p, I n]]\<rparr>,
              post))) \<and>
   (\<forall>p n post.
      dropWhile terminated rs = (p, Stopped n) # post \<and>
      getjobpid (table_after (jobs s) (takeWhile terminated rs)) p = None \<longrightarrow>
      sigchld_handler s rs fin =
        Inl (Segfault,
             s\<lparr>jobs := table_after (jobs s) (takeWhile terminated rs),
               child_finished := (if takeWhile terminated rs = [] then child_finished s else 1),
               out := out s @ signal_msgs (jobs s) (takeWhile terminated rs)\<rparr>))"
proof (intro conjI impI allI)
  assume "dropWhile terminated rs = []"
  with sigchld_handler_reaps[of rs s fin]
  show "sigchld_handler s rs fin =
        Inr (s\<lparr>jobs := table_after (jobs s) rs,
               child_finished := (if rs = [] then child_finished s else 1),
               out := out s @ signal_msgs (jobs s) rs @ reap_report fin\<rparr>, [])"
    by blast
next
  fix p n post i
  assume "dropWhile terminated rs = (p, Stopped n) # post \<and>
      getjobpid (table_after (jobs s) (takeWhile terminated rs)) p = Some i"
  with sigchld_handler_reaps[of rs s fin]
  show "sigchld_handler s rs fin =
        (let T = table_after (jobs s) (takeWhile terminated rs) in
         Inr (s\<lparr>jobs := T[i := (T ! i)\<lparr>state := ST\<rparr>],
                child_finished := 1,
                out := out s @ signal_msgs (jobs s) (takeWhile terminated rs) @
                  [Printf ''Job [%d] (%d) stopped by signal %d\<newline>'' [I (jid (T ! i)), I p, I n]]\<rparr>,
              post))"
    by blast
next
  fix p n post
  assume a: "dropWhile terminated rs = (p, Stopped n) # post \<and>
      getjobpid (table_after (jobs s) (takeWhile terminated rs)) p = None"
  let ?pre = "takeWhile terminated rs"
  have pre: "\<forall>r\<in>set ?pre. terminated r" by (auto dest: set_takeWhileD)
  from a have rs: "rs = ?pre @ (p, Stopped n) # post"
    by (metis takeWhile_dropWhile_id)
  from a have g: "getjobpid (table_after (jobs s) ?pre) p = None" by simp
  have "sigchld_handler s (?pre @ (p, Stopped n) # post) fin =
        Inl (Segfault,
             s\<lparr>jobs := table_after (jobs s) ?pre,
               child_finished := (if ?pre = [] then child_finished s else 1),
               out := out s @ signal_msgs (jobs s) ?pre\<rparr>)"
    unfolding handler_terminated_prefix[OF pre] using g by simp
  with rs show "sigchld_handler s rs fin =
        Inl (Segfault,
             s\<lparr>jobs := table_after (jobs s) (takeWhile terminated rs),
               child_finished := (if takeWhile terminated rs = [] then child_finished s else 1),
               out := out s @ signal_msgs (jobs s) (takeWhile terminated rs)\<rparr>)"
    by simp
qed

text \<open>
  The job of a child that has terminated is removed: its entry is the cleared entry when
  the handler returns.
\<close>

lemma handler_removes_terminated_job:
  assumes g: "getjobpid (jobs s) p = Some i" and t: "terminated (p, st)"
  shows "sigchld_handler s [(p, st)] fin =
           Inr (s\<lparr>jobs := (jobs s)[i := \<lparr>pid = 0, jid = 0, state = 0, cmdline = []\<rparr>],
                  child_finished := 1,
                  out := out s @ signal_msgs (jobs s) [(p, st)] @ reap_report fin\<rparr>, [])"
proof -
  from t have "dropWhile terminated [(p, st)] = []" by simp
  with sigchld_handler_every_invocation[of "[(p, st)]" s fin] deletejob_found[OF g]
  show ?thesis by simp
qed

lemma sigchld_handler_example:
  "sigchld_handler three_jobs (take 2 reaps4) (Failed 10) =
     Inr (three_jobs\<lparr>jobs := (jobs three_jobs)
              [1 := \<lparr>pid = 0, jid = 0, state = 0, cmdline = []\<rparr>,
               2 := \<lparr>pid = 0, jid = 0, state = 0, cmdline = []\<rparr>],
            child_finished := 1,
            out := [Printf ''Job [%d] (%d) terminated by signal %d\<newline>'' [I 2, I 200, I 9]]\<rparr>, []) \<and>
   sigchld_handler three_jobs reaps4 (Failed 10) =
     Inr (three_jobs\<lparr>jobs := (jobs three_jobs)
              [1 := \<lparr>pid = 0, jid = 0, state = 0, cmdline = []\<rparr>,
               2 := \<lparr>pid = 0, jid = 0, state = 0, cmdline = []\<rparr>,
               0 := \<lparr>pid = 100, jid = 1, state = 3, cmdline = ''sleep 100\<newline>''\<rparr>],
            child_finished := 1,
            out := [Printf ''Job [%d] (%d) terminated by signal %d\<newline>'' [I 2, I 200, I 9],
                    Printf ''Job [%d] (%d) stopped by signal %d\<newline>'' [I 1, I 100, I 20]]\<rparr>,
          [(400, Exited 0)]) \<and>
   sigchld_handler three_jobs [(300, Exited 0)] (Failed 4) =
     Inr (three_jobs\<lparr>jobs := (jobs three_jobs)
              [2 := \<lparr>pid = 0, jid = 0, state = 0, cmdline = []\<rparr>],
            child_finished := 1,
            out := [Eprintf ''The exorcism failed. Value of errno: %d\<newline>'' [I 4]]\<rparr>, [])"
  by code_simp

subsection \<open>bg and fg\<close>

text \<open>
  The number that \<^verbatim>\<open>do_bgfg\<close> reads lies in the range of \<^verbatim>\<open>int\<close>; digits beyond that range
  wrap around, so that \<^verbatim>\<open>bg %4294967297\<close> is \<^verbatim>\<open>bg %1\<close>.
\<close>

lemma atoi_wraps:
  "atoi ''4294967297'' = 1 \<and> atoi ''2147483648'' = - 2147483648 \<and>
   atoi ''99999999999999999999'' = - 1 \<and> atoi ''-99999999999999999999'' = 0 \<and>
   atoi '' 12abc'' = 12 \<and> atoi ''-7'' = - 7 \<and> atoi ''x'' = 0"
  by code_simp

lemma atoi_in_int_range: "- 2147483648 \<le> atoi str \<and> atoi str \<le> 2147483647"
proof -
  have "0 \<le> (strtol str + 2147483648) mod 4294967296"
    and "(strtol str + 2147483648) mod 4294967296 < 4294967296"
    by simp_all
  then show ?thesis by (simp add: atoi_def int_of_long_def)
qed

lemma bg_wrapped_jid:
  "do_bgfg three_jobs [''bg'', ''%4294967297''] (0, 0) [] =
     Inr (three_jobs\<lparr>jobs := (jobs three_jobs)
              [0 := \<lparr>pid = 100, jid = 1, state = BG, cmdline = ''sleep 100\<newline>''\<rparr>],
            out := [Kill (- 100) SIGCONT,
                    Printf ''[%d] (%d) %s'' [I 1, I 100, S ''sleep 100\<newline>'']]\<rparr>, [])"
  by code_simp




subsection \<open>The invariant of the job table holds wherever the shell gets\<close>

text \<open>
  The handlers, \<^verbatim>\<open>waitfg\<close>, \<^verbatim>\<open>do_bgfg\<close> and \<^verbatim>\<open>eval\<close> change the state of an entry, clear an
  entry or fill a free one, so the invariant of the job table is kept by every command and
  by every signal, and \<^verbatim>\<open>freejid\<close> never indexes outside \<^verbatim>\<open>taken\<close>.
\<close>

lemma table_ok_state_update:
  "table_ok js \<Longrightarrow> i < length js \<Longrightarrow> table_ok (js[i := (js ! i)\<lparr>state := x\<rparr>])"
  by (rule table_ok_update) (auto simp: table_ok_def)

lemma sigchld_handler_table_ok:
  "table_ok (jobs s) \<Longrightarrow> res_ok (sigchld_handler s rs fin)"
proof (induction s rs fin rule: sigchld_handler.induct)
  case (1 s)
  then show ?case by (simp add: res_ok_def)
next
  case (2 s errno)
  then show ?case by (simp add: res_ok_def emit_def)
next
  case (3 s result sig rest fin)
  then show ?case
    by (auto simp: res_ok_def emit_def Let_def split: option.splits
        dest!: getjobpid_Some intro!: table_ok_state_update)
next
  case (4 s result sig rest fin)
  then show ?case by (simp add: emit_def Let_def table_ok_deletejob)
next
  case (5 s result c rest fin)
  then show ?case by (simp add: table_ok_deletejob)
qed

lemma deliver_table_ok:
  "table_ok (jobs s) \<Longrightarrow>
     (case deliver s ev of Inl (e, s') \<Rightarrow> e \<noteq> OutOfBounds \<and> table_ok (jobs s')
                         | Inr s' \<Rightarrow> table_ok (jobs s'))"
proof (cases ev)
  case (Sigchld rs fin)
  assume "table_ok (jobs s)"
  from sigchld_handler_table_ok[OF this, of rs fin] Sigchld show ?thesis
    by (auto simp: res_ok_def split: sum.splits)
qed (auto simp: sigint_handler_def sigtstp_handler_def sigusr1_handler_def sigquit_handler_def
       emit_def Let_def)

lemma waitfg_loop_table_ok:
  "table_ok (jobs s) \<Longrightarrow> res_ok (waitfg_loop tested s p as)"
proof (induction as arbitrary: s tested)
  case Nil
  then show ?case by (simp add: res_ok_def emit_def)
next
  case (Cons a as)
  show ?case
  proof (cases "\<not> tested \<and> child_finished s \<noteq> 0")
    case True
    with Cons.prems show ?thesis by (simp add: res_ok_def emit_def)
  next
    case False
    obtain ev where ev: "a = Before_suspend ev \<or> a = During_suspend ev" by (cases a) auto
    from deliver_table_ok[OF Cons.prems, of ev] show ?thesis
    proof (cases "deliver s ev")
      case (Inl e)
      with deliver_table_ok[OF Cons.prems, of ev] False ev show ?thesis
        by (auto simp: res_ok_def)
    next
      case (Inr s')
      with deliver_table_ok[OF Cons.prems, of ev] have "table_ok (jobs s')" by simp
      from Cons.IH[OF this] False ev Inr show ?thesis by auto
    qed
  qed
qed

lemma getjobjid_Some: "getjobjid js n = Some i \<Longrightarrow> i < length js \<and> jid (js ! i) = n"
  by (auto simp: getjobjid_def split: if_splits dest!: find_from_Some)

lemma do_bgfg_table_ok:
  assumes "table_ok (jobs s)"
  shows "res_ok (do_bgfg s argv k as)"
proof -
  have fg: "res_ok (waitfg (s'\<lparr>jobs := (jobs s)[i := (jobs s ! i)\<lparr>state := FG\<rparr>]\<rparr>) p as)"
    if "i < length (jobs s)" for s' i p
    using that assms by (simp add: waitfg_def waitfg_loop_table_ok table_ok_state_update)
  show ?thesis
    using assms fg
    by (auto simp: do_bgfg_def res_ok_def[of "Inr x" for x] emit_def Let_def
        split: option.splits dest!: getjobjid_Some getjobpid_Some intro!: table_ok_state_update)
qed

lemma eval_table_ok:
  assumes ok: "table_ok (jobs s)"
  shows "res_ok (eval s args cl os as)"
proof -
  let ?argv = "takeWhile (\<lambda>a. a \<noteq> ''&'') args"
  show ?thesis
  proof (cases "?argv = []")
    case True
    with ok show ?thesis by (simp add: eval_def res_ok_def)
  next
    case ne: False
    show ?thesis
    proof (cases "?argv ! 0 = ''quit''")
      case True
      with ne ok show ?thesis
        by (simp add: eval_def builtin_cmd_def sigquit_handler_def emit_def res_ok_def)
    next
      case nq: False
      show ?thesis
      proof (cases "?argv ! 0 = ''fg'' \<or> ?argv ! 0 = ''bg''")
        case True
        with do_bgfg_table_ok[OF ok, of ?argv "kill_ret os" as] ne nq show ?thesis
          by (auto simp: eval_def builtin_cmd_def res_ok_def split: sum.splits)
      next
        case nb: False
        show ?thesis
        proof (cases "?argv ! 0 = ''jobs''")
          case True
          with ne nq nb ok show ?thesis
            by (simp add: eval_def builtin_cmd_def listjobs_def res_ok_def)
        next
          case nj: False
          have b: "builtin_cmd s ?argv (kill_ret os) as = Inr (0, s, as)"
            using nq nb nj by (simp add: builtin_cmd_def)
          let ?s2 = "s\<lparr>sigchld_blocked := True, child_finished := 0\<rparr>"
          have ok2: "table_ok (jobs ?s2)" using ok by simp
          have add: "\<And>st. \<exists>r s3. addjob ?s2 (fork_ret os) st cl = Inr (r, s3) \<and> table_ok (jobs s3)"
            using addjob_table_ok[OF ok2] by blast
          have w: "\<And>s3 x. table_ok (jobs s3) \<Longrightarrow>
                     res_ok (waitfg (s3\<lparr>sigchld_blocked := False\<rparr>) x as)"
            by (simp add: waitfg_def waitfg_loop_table_ok)
          from add[of FG] obtain r1 s3 where a1: "addjob ?s2 (fork_ret os) FG cl = Inr (r1, s3)"
            and o1: "table_ok (jobs s3)" by blast
          from add[of BG] obtain r2 s4 where a2: "addjob ?s2 (fork_ret os) BG cl = Inr (r2, s4)"
            and o2: "table_ok (jobs s4)" by blast
          show ?thesis
            using ne b ok a1 o1 a2 o2 w[OF o1]
            by (simp add: eval_def Let_def child_after_fork_def emit_def res_ok_def[of "Inr x" for x]
                res_ok_def[of "Inl x" for x])
        qed
      qed
    qed
  qed
qed

lemma read_eval_loop_table_ok:
  "table_ok (jobs s) \<Longrightarrow>
     (case read_eval_loop s cs of Inl (e, s') \<Rightarrow> e \<noteq> OutOfBounds \<and> table_ok (jobs s')
                                | Inr s' \<Rightarrow> table_ok (jobs s'))"
proof (induction cs arbitrary: s)
  case Nil
  then show ?case by simp
next
  case (Cons c cs)
  obtain args cl os as where c: "c = Command args cl os as" by (cases c)
  from eval_table_ok[OF Cons.prems, of args cl os as] show ?case
  proof (cases "eval s args cl os as")
    case (Inl e)
    with eval_table_ok[OF Cons.prems, of args cl os as] c show ?thesis
      by (auto simp: res_ok_def)
  next
    case (Inr r)
    obtain s' rest where r: "r = (s', rest)" by (cases r)
    with Inr eval_table_ok[OF Cons.prems, of args cl os as] have "table_ok (jobs s')"
      by (simp add: res_ok_def)
    from Cons.IH[OF this] Inr r c show ?thesis by simp
  qed
qed

lemma shell_keeps_table_ok:
  "read_eval_loop (init_shell v) cs = Inr s \<Longrightarrow> table_ok (jobs s)"
  using read_eval_loop_table_ok[OF table_ok_init, of v cs] by simp

lemma shell_stays_in_bounds:
  "read_eval_loop (init_shell v) cs \<noteq> Inl (OutOfBounds, s)"
  using read_eval_loop_table_ok[OF table_ok_init, of v cs] by auto

subsection \<open>The handlers of the keyboard signals and waitfg, on every shell\<close>

text \<open>
  The handlers of \<^verbatim>\<open>SIGINT\<close> and \<^verbatim>\<open>SIGTSTP\<close> do nothing when no job is in the foreground,
  and otherwise call \<^verbatim>\<open>kill\<close> with the pid that \<^verbatim>\<open>fgpid\<close> returns. \<^verbatim>\<open>waitfg\<close> returns at once
  when \<^verbatim>\<open>child_finished\<close> is set on entry; when it is clear, a status change that the
  handler records before \<^verbatim>\<open>sigsuspend\<close> is entered does not end the wait unless \<^verbatim>\<open>SIGCHLD\<close>
  was blocked, and one recorded during \<^verbatim>\<open>sigsuspend\<close> does. A spawn on a full table
  leaves the table as it is and \<^verbatim>\<open>SIGCHLD\<close> blocked.
\<close>

lemma sigint_handler_no_fg: "fgpid (jobs s) = 0 \<Longrightarrow> sigint_handler s sig k = s"
  by (simp add: sigint_handler_def)

lemma sigtstp_handler_no_fg: "fgpid (jobs s) = 0 \<Longrightarrow> sigtstp_handler s sig k = s"
  by (simp add: sigtstp_handler_def)

lemma sigint_handler_target:
  "fgpid (jobs s) \<noteq> 0 \<Longrightarrow> fst k \<noteq> - 1 \<Longrightarrow>
     sigint_handler s sig k = emit (Kill (fgpid (jobs s)) sig) s"
  by (simp add: sigint_handler_def Let_def)

lemma sigtstp_handler_target:
  "fgpid (jobs s) \<noteq> 0 \<Longrightarrow> fst k \<noteq> - 1 \<Longrightarrow>
     sigtstp_handler s sig k = emit (Kill (fgpid (jobs s)) sig) s"
  by (simp add: sigtstp_handler_def Let_def)

lemma fgpid_state: "fgpid js \<noteq> 0 \<Longrightarrow> \<exists>j\<in>set js. state j = FG \<and> pid j = fgpid js"
  by (induction js) (auto split: if_splits)

lemma fgpid_none: "\<forall>j\<in>set js. state j \<noteq> FG \<Longrightarrow> fgpid js = 0"
  by (induction js) auto

lemma waitfg_flag_set:
  "child_finished s \<noteq> 0 \<Longrightarrow> waitfg s p as = Inr (emit (Waitpid_nohang p) s, as)"
  by (cases as) (simp_all add: waitfg_def)

lemma waitfg_never_woken:
  "child_finished s = 0 \<Longrightarrow> waitfg s p [] = Inl (Suspended, s)"
  by (simp add: waitfg_def)

lemma waitfg_change_before_suspend:
  "child_finished s = 0 \<Longrightarrow> \<not> sigchld_blocked s \<Longrightarrow>
   sigchld_handler s rs fin = Inr (s', rest) \<Longrightarrow>
     waitfg s p [Before_suspend (Sigchld rs fin)] = Inl (Suspended, s')"
  by (simp add: waitfg_def)

lemma waitfg_change_during_suspend:
  "child_finished s = 0 \<Longrightarrow> sigchld_handler s rs fin = Inr (s', rest) \<Longrightarrow>
   child_finished s' \<noteq> 0 \<Longrightarrow>
     waitfg s p [During_suspend (Sigchld rs fin)] = Inr (emit (Waitpid_nohang p) s', [])"
  by (simp add: waitfg_def)

lemma waitfg_change_while_blocked:
  "child_finished s = 0 \<Longrightarrow> sigchld_blocked s \<Longrightarrow>
   sigchld_handler s rs fin = Inr (s', rest) \<Longrightarrow> child_finished s' \<noteq> 0 \<Longrightarrow>
     waitfg s p [Before_suspend (Sigchld rs fin)] = Inr (emit (Waitpid_nohang p) s', [])"
  by (simp add: waitfg_def)

lemma fg_with_flag_set:
  assumes "child_finished s \<noteq> 0" and "getjobjid (jobs s) (atoi ds) = Some i" and "0 \<le> fst k"
  shows "do_bgfg s [''fg'', CHR ''%'' # ds] k as =
           Inr (s\<lparr>jobs := (jobs s)[i := (jobs s ! i)\<lparr>state := FG\<rparr>],
                  out := out s @ [Kill (- pid (jobs s ! i)) SIGCONT,
                                  Waitpid_nohang (pid (jobs s ! i))]\<rparr>, as)"
  using assms by (simp add: do_bgfg_def Let_def emit_def waitfg_flag_set)

lemma eval_table_full:
  assumes full: "table_full (jobs s)"
    and nb: "builtin_cmd s (takeWhile (\<lambda>a. a \<noteq> ''&'') args) (kill_ret os) as = Inr (0, s, as)"
    and ne: "takeWhile (\<lambda>a. a \<noteq> ''&'') args \<noteq> []"
    and sys: "0 \<le> block_ret os" "0 < fork_ret os"
  shows "eval s args cl os as =
           Inr (s\<lparr>sigchld_blocked := True, child_finished := 0,
                  out := out s @ [Printf ''Tried to create too many jobs\<newline>'' [],
                                  Eprintf ''Failed to add job\<newline>'' []]\<rparr>, as)"
proof -
  let ?s2 = "s\<lparr>sigchld_blocked := True, child_finished := 0\<rparr>"
  from full have f2: "freejid (jobs ?s2) = Some 0" by (simp add: freejid_full)
  have "\<And>st. addjob ?s2 (fork_ret os) st cl =
          Inr (0, emit (Printf ''Tried to create too many jobs\<newline>'' []) ?s2)"
    using f2 sys by (simp add: addjob_def)
  with nb ne sys show ?thesis
    by (simp add: eval_def Let_def emit_def)
qed

subsection \<open>Sessions in which the shell leaves its specification\<close>

text \<open>
  C1. \<^verbatim>\<open>sleep 100\<close> runs in the foreground with the pid 100 (the shell reaches this state
  and sleeps in \<^verbatim>\<open>sigsuspend\<close>). The handlers of \<^verbatim>\<open>SIGINT\<close> and of \<^verbatim>\<open>SIGTSTP\<close> then call
  \<^verbatim>\<open>kill(100, sig)\<close>: the target is the pid itself, which names the one process, and not
  its negation, which would name the process group.
\<close>

theorem sigint_sigtstp_signal_the_pid:
  "read_eval_loop (init_shell 0) [sleep_fg 100 []] = Inl (Suspended, fg_running) \<and>
   sigint_handler fg_running SIGINT (0, 0) = fg_running\<lparr>out := [Kill 100 SIGINT]\<rparr> \<and>
   sigtstp_handler fg_running SIGTSTP (0, 0) = fg_running\<lparr>out := [Kill 100 SIGTSTP]\<rparr>"
  by code_simp

text \<open>
  C2. After sixteen background jobs the job list is full. The next command forks the child
  117; \<^verbatim>\<open>addjob\<close> fails, and \<^verbatim>\<open>eval\<close> returns with the child alive, with no entry for it in
  the job list, and with \<^verbatim>\<open>SIGCHLD\<close> still blocked. When that child ends, the handler reaps
  the pid 117, for which the table has no job.
\<close>

theorem handler_reaps_unregistered_child:
  "(case read_eval_loop (init_shell 0) (sixteen_bg @ [sleep_fg 117 []]) of
      Inl e \<Rightarrow> False
    | Inr s \<Rightarrow>
        jobs s = full16 \<and> getjobpid (jobs s) 117 = None \<and> sigchld_blocked s \<and>
        sigchld_handler s [(117, Exited 0)] No_change = Inr (s\<lparr>child_finished := 1\<rparr>, []))"
  by code_simp

text \<open>
  C3. \<^verbatim>\<open>sleep 100\<close> is started in the foreground and stopped with ctrl-z, which leaves
  \<^verbatim>\<open>child_finished\<close> at 1. \<^verbatim>\<open>fg %1\<close> then sends \<^verbatim>\<open>SIGCONT\<close> to the process group, sets the
  state of the job to \<^term>\<open>FG\<close>, and returns from \<^verbatim>\<open>waitfg\<close> at once: no signal arrives
  after the command was given, and the job is still in the foreground when the shell is
  back at its prompt.
\<close>

theorem fg_returns_without_waiting:
  "read_eval_loop (init_shell 0) [sleep_fg 100 (ctrl_z 100), fg_cmd ''%1'' []] =
     Inr (fg_running\<lparr>child_finished := 1,
            out := [Kill 100 SIGTSTP,
                    Printf ''Job [%d] (%d) stopped by signal %d\<newline>'' [I 1, I 100, I SIGTSTP],
                    Waitpid_nohang 100, Kill (- 100) SIGCONT, Waitpid_nohang 100]\<rparr>)"
  by code_simp

text \<open>
  C4. \<^verbatim>\<open>sleep 100\<close> is started in the foreground, and its child ends. When \<^verbatim>\<open>SIGCHLD\<close>
  arrives after \<^verbatim>\<open>waitfg\<close> has tested \<^verbatim>\<open>child_finished\<close> and before it calls \<^verbatim>\<open>sigsuspend\<close>,
  the handler removes the job and sets \<^verbatim>\<open>child_finished\<close> to 1, and \<^verbatim>\<open>sigsuspend\<close> then sleeps
  although the change is recorded; with no other signal to come it sleeps for ever. When
  the same signal arrives during \<^verbatim>\<open>sigsuspend\<close>, \<^verbatim>\<open>waitfg\<close> returns.
\<close>

theorem status_change_before_suspend_is_lost:
  "eval (init_shell 0) [''sleep'', ''100''] ''sleep 100\<newline>'' (os_ok 100)
       [Before_suspend (Sigchld [(100, Exited 0)] (Failed 10))] =
     Inl (Suspended, (init_shell 0)\<lparr>child_finished := 1\<rparr>) \<and>
   eval (init_shell 0) [''sleep'', ''100''] ''sleep 100\<newline>'' (os_ok 100)
       [During_suspend (Sigchld [(100, Exited 0)] (Failed 10))] =
     Inr ((init_shell 0)\<lparr>child_finished := 1, out := [Waitpid_nohang 100]\<rparr>, [])"
  by code_simp

text \<open>
  C5. As in C2 the child 117 runs with no entry in the job list. It stops, the job 103 is
  killed by a signal, and \<^verbatim>\<open>fg %2\<close> lets the handler run inside \<^verbatim>\<open>sigsuspend\<close>. \<^verbatim>\<open>waitpid\<close>
  reports the stopped child first. The handler ends in the write through the null pointer:
  no job has the state \<^term>\<open>ST\<close>, no message about a stopped or a killed job is printed (the
  last action logged is the \<^verbatim>\<open>SIGCONT\<close> of \<^verbatim>\<open>fg\<close>), \<^verbatim>\<open>child_finished\<close> is still 0, and the
  job 103 is still in the table.
\<close>

theorem stopped_child_without_job_ends_handler:
  "(case read_eval_loop (init_shell 0)
           (sixteen_bg @ [sleep_fg 117 [],
              fg_cmd ''%2'' [During_suspend
                 (Sigchld [(117, Stopped SIGTSTP), (103, Signaled 9)] No_change)]]) of
      Inl (e, s) \<Rightarrow>
        e = Segfault \<and> child_finished s = 0 \<and>
        filter (\<lambda>j. state j = ST) (jobs s) = [] \<and>
        map pid (filter (\<lambda>j. pid j = 103) (jobs s)) = [103] \<and>
        filter (\<lambda>e. case e of Printf f a \<Rightarrow> f \<noteq> ''[%d] (%d) %s'' | _ \<Rightarrow> False) (out s) =
          [Printf ''Tried to create too many jobs\<newline>'' []] \<and>
        last (out s) = Kill (- 102) SIGCONT
    | Inr s \<Rightarrow> False)"
  by code_simp

text \<open>
  C7. Two jobs are started in the foreground and each is stopped with ctrl-z. \<^verbatim>\<open>fg %1\<close>
  and then \<^verbatim>\<open>fg %2\<close> both return at once, and the shell is back at its prompt with two
  jobs in the state \<^term>\<open>FG\<close>.
\<close>

theorem two_foreground_jobs:
  "(case read_eval_loop (init_shell 0)
           [sleep_fg 100 (ctrl_z 100), sleep_fg 200 (ctrl_z 200),
            fg_cmd ''%1'' [], fg_cmd ''%2'' []] of
      Inl e \<Rightarrow> False
    | Inr s \<Rightarrow> length (filter (\<lambda>j. state j = FG) (jobs s)) = 2)"
  by code_simp

text \<open>
  C10. As in C2 the child 117 runs with no entry in the job list. It stops, and \<^verbatim>\<open>fg %1\<close>
  lets the handler run inside \<^verbatim>\<open>sigsuspend\<close>: \<^verbatim>\<open>getjobpid\<close> returns \<^verbatim>\<open>NULL\<close> for the stopped
  child and the handler writes through it.
\<close>

theorem stopped_unregistered_child_segfault:
  "(case read_eval_loop (init_shell 0)
           (sixteen_bg @ [sleep_fg 117 [],
              fg_cmd ''%1'' [During_suspend (Sigchld [(117, Stopped SIGTSTP)] No_change)]]) of
      Inl (e, s) \<Rightarrow> e = Segfault \<and> getjobpid (jobs s) 117 = None
    | Inr s \<Rightarrow> False)"
  by code_simp

end
